theory Spec2Isabelle
  imports Main "HOL-Library.Word"
begin

section \<open>The data model of \<open>net/connection.go\<close>\<close>

text \<open>
  The engine \<open>SimpleNet\<close> is modelled sequentially: one call of one function at a time,
  on an explicit world that holds the engine, the heap of \<open>Connection\<close> and
  \<open>Listener\<close> objects, and the backing arrays of the registry slices. Pointers are
  addresses (\<open>0\<close> is \<open>nil\<close>). The locks, the logger and the \<open>UserData\<close> slots
  are left out: no function below reads them. The world holds one engine, so the
  \<open>net\<close> field of every connection and listener is that engine.
\<close>

type_synonym ptr = nat
type_synonym byte = "8 word"
type_synonym int64 = "64 word"
type_synonym uint32 = "32 word"

text \<open>Go \<open>error\<close> values: the sentinel \<open>io.EOF\<close>, or any other error.\<close>

datatype error = EOF | Err string

text \<open>A value of type \<open>interface{}\<close>, by its dynamic type.\<close>

datatype any = Nil | Bytes "byte list" | Error error | Other string

datatype event_type =
  EventNone | EventNewConnection | EventConnectionError | EventConnectionClosed
  | EventNewConnectionData | EventProtoError | EventTimeout

datatype status = StatusNone | StatusListenning | StatusConnected | StatusBroken

record ConnEvent =
  EventType :: event_type
  Conn :: "ptr option"
  Data :: any

subsection \<open>Channels\<close>

text \<open>
  A buffered channel: the queued values, the capacity, and whether it was closed.
  Sending on a closed channel and closing a closed channel panic; sending on a full
  channel blocks; receiving drains the buffer first and only then sees the close.
\<close>

record 'a chan =
  ch_buf :: "'a list"
  ch_cap :: nat
  ch_closed :: bool

datatype 'a sent = Sent 'a | SendPanic | SendBlocks

definition make_chan :: "nat \<Rightarrow> 'a chan" where
  "make_chan k = \<lparr>ch_buf = [], ch_cap = k, ch_closed = False\<rparr>"

definition chan_send :: "'a chan \<Rightarrow> 'a \<Rightarrow> 'a chan sent" where
  "chan_send ch x =
     (if ch_closed ch then SendPanic
      else if length (ch_buf ch) < ch_cap ch then Sent (ch\<lparr>ch_buf := ch_buf ch @ [x]\<rparr>)
      else SendBlocks)"

definition chan_close :: "'a chan \<Rightarrow> 'a chan option" where
  "chan_close ch = (if ch_closed ch then None else Some (ch\<lparr>ch_closed := True\<rparr>))"

datatype 'a recvd = Recv 'a "'a chan" | RecvClosed | RecvBlocks

definition chan_recv :: "'a chan \<Rightarrow> 'a recvd" where
  "chan_recv ch =
     (case ch_buf ch of
        x # xs \<Rightarrow> Recv x (ch\<lparr>ch_buf := xs\<rparr>)
      | [] \<Rightarrow> if ch_closed ch then RecvClosed else RecvBlocks)"

subsection \<open>Sockets\<close>

text \<open>
  A \<open>net.Conn\<close>: whether it was closed, what the peer will deliver (chunks of bytes
  as they arrive, or an error), the error the next \<open>Write\<close> meets, if any, and what was
  written. \<open>Read\<close> into a buffer of \<open>k\<close> bytes returns what one chunk has, at most
  \<open>k\<close> bytes, and leaves the rest of the chunk for the next call; it returns an error
  on a closed socket, and \<open>0, nil\<close> for an empty buffer. \<open>None\<close>: the call blocks.
\<close>

datatype rd = RData "byte list" | RErr error

record socket =
  sk_closed :: bool
  sk_incoming :: "rd list"
  sk_wfail :: "error option"
  sk_sent :: "byte list list"

definition ErrClosed :: error where
  "ErrClosed = Err ''use of closed network connection''"

definition sock_read :: "socket \<Rightarrow> nat \<Rightarrow> (nat \<times> byte list \<times> error option \<times> socket) option" where
  "sock_read sk k =
     (if sk_closed sk then Some (0, replicate k 0, Some ErrClosed, sk)
      else if k = 0 then Some (0, [], None, sk)
      else (case sk_incoming sk of
              [] \<Rightarrow> None
            | RErr e # rest \<Rightarrow> Some (0, replicate k 0, Some e, sk\<lparr>sk_incoming := rest\<rparr>)
            | RData bs # rest \<Rightarrow>
                (let n = min k (length bs) in
                 Some (n, take n bs @ replicate (k - n) 0, None,
                       sk\<lparr>sk_incoming := (if n < length bs then RData (drop n bs) # rest else rest)\<rparr>))))"

definition sock_write :: "socket \<Rightarrow> byte list \<Rightarrow> nat \<times> error option \<times> socket" where
  "sock_write sk msg =
     (if sk_closed sk then (0, Some ErrClosed, sk)
      else (case sk_wfail sk of
              Some e \<Rightarrow> (0, Some e, sk)
            | None \<Rightarrow> (length msg, None, sk\<lparr>sk_sent := sk_sent sk @ [msg]\<rparr>)))"

definition sock_close :: "socket \<Rightarrow> socket" where
  "sock_close sk = sk\<lparr>sk_closed := True\<rparr>"

text \<open>
  A \<open>net.Listener\<close>: closed or not, and the results of the \<open>Accept\<close> calls to
  come, each an error or a new socket with its local address, its remote address and
  what its peer will deliver.
\<close>

datatype acc = AErr error | AConn string string "rd list"

record lsock =
  ls_closed :: bool
  ls_pending :: "acc list"

subsection \<open>The protocol capability\<close>

text \<open>
  \<open>IProto\<close>: the five methods, as pure functions. A method that returns a value and
  an error is a sum: the engine looks at the value only when the error is \<open>nil\<close>.
  \<open>FilterAccept\<close> sees the new connection through its id and its two addresses.
\<close>

record IProto =
  FilterAccept :: "int64 \<Rightarrow> string \<Rightarrow> string \<Rightarrow> bool"
  HeadLen :: uint32
  BodyLen :: "byte list \<Rightarrow> error + (any \<times> uint32)"
  Parse :: "any \<Rightarrow> byte list \<Rightarrow> error + any"
  Serialize :: "any \<Rightarrow> error + byte list"

subsection \<open>Slices, objects and the world\<close>

text \<open>
  A slice \<open>[]*Connection\<close> or \<open>[]*Listener\<close> is a header: the address of its backing
  array, a length and a capacity. Two headers on one array alias each other.
\<close>

record slice =
  s_arr :: ptr
  s_len :: nat
  s_cap :: nat

definition nil_slice :: slice where
  "nil_slice = \<lparr>s_arr = 0, s_len = 0, s_cap = 0\<rparr>"

record Connection =
  c_listen :: "ptr option"
  c_id :: int64
  c_status :: status
  c_conn :: socket
  c_msgChan :: "byte list chan"
  c_localAddr :: string
  c_remoteAddr :: string
  c_upTime :: nat
  c_proto :: "IProto option"

record Listener =
  l_id :: int64
  l_status :: status
  l_listen :: lsock
  l_conns :: slice
  l_proto :: "IProto option"

record SimpleNet =
  events :: "ConnEvent chan"
  connClient :: slice
  connServer :: slice
  nextid :: int64
  destroy :: bool

text \<open>The tasks started with \<open>go\<close>, in the order they were started.\<close>

datatype task = TListening ptr | TRead ptr | TWrite ptr

text \<open>
  The world: the engine, the three heaps, the tasks started so far, the clock that
  \<open>time.Now()\<close> reads, the next free address, and the capacity the runtime gives a
  slice that \<open>append\<close> has to move (the language only promises that it is large
  enough, so it is a parameter).
\<close>

record world =
  net :: SimpleNet
  conns :: "ptr \<Rightarrow> Connection option"
  listeners :: "ptr \<Rightarrow> Listener option"
  arrays :: "ptr \<Rightarrow> ptr list option"
  tasks :: "task list"
  now :: nat
  next_ptr :: ptr
  grow :: "nat \<Rightarrow> nat"

text \<open>
  What a call does: it returns a value in a new world, it panics, or it blocks (on a
  full channel, or on a socket with nothing to read).
\<close>

datatype 'a res = Done 'a world | Panic string world | Blocked world

definition NilDeref :: string where
  "NilDeref = ''invalid memory address or nil pointer dereference''"

subsection \<open>Slice operations\<close>

text \<open>The elements a slice shows: the first \<open>len\<close> cells of its array.\<close>

definition elems :: "world \<Rightarrow> slice \<Rightarrow> ptr list" where
  "elems w s = (case arrays w (s_arr s) of None \<Rightarrow> [] | Some xs \<Rightarrow> take (s_len s) xs)"

text \<open>Cell \<open>i\<close> of the array at \<open>a\<close>, as a \<open>range\<close> loop reads it.\<close>

definition arr_get :: "world \<Rightarrow> ptr \<Rightarrow> nat \<Rightarrow> ptr option" where
  "arr_get w a i =
     (case arrays w a of
        None \<Rightarrow> None
      | Some xs \<Rightarrow> if i < length xs then Some (xs ! i) else None)"

text \<open>
  The builtin \<open>append(s, ys...)\<close>: in place when the capacity allows it, so every
  header on the same array sees the cells change; otherwise into a new array.
\<close>

definition append_slice :: "world \<Rightarrow> slice \<Rightarrow> ptr list \<Rightarrow> slice \<times> world" where
  "append_slice w s ys =
     (let n = s_len s + length ys in
      if n \<le> s_cap s then
        (case arrays w (s_arr s) of
           None \<Rightarrow> (s\<lparr>s_len := n\<rparr>, w)
         | Some xs \<Rightarrow>
             (s\<lparr>s_len := n\<rparr>,
              w\<lparr>arrays := (arrays w)(s_arr s \<mapsto> take (s_len s) xs @ ys @ drop n xs)\<rparr>))
      else
        (let c = max n (grow w (s_cap s)); a = next_ptr w in
         (\<lparr>s_arr = a, s_len = n, s_cap = c\<rparr>,
          w\<lparr>arrays := (arrays w)(a \<mapsto> elems w s @ ys @ replicate (c - n) 0),
            next_ptr := Suc a\<rparr>)))"

text \<open>
  The loop \<open>for i, v := range q { if v == x { ...; break } }\<close> up to its break: the
  first index that holds \<open>x\<close>. Nothing is written before the break, so the elements
  are the ones the slice showed when the loop began.
\<close>

fun range_find :: "ptr \<Rightarrow> ptr list \<Rightarrow> nat \<Rightarrow> nat option" where
  "range_find x [] i = None"
| "range_find x (v # vs) i = (if v = x then Some i else range_find x vs (Suc i))"

text \<open>
  The body of that \<open>if\<close>: \<open>q[:i]\<close> when \<open>i\<close> is the last index, and
  \<open>append(q[:i], q[i+1:]...)\<close> otherwise, which shifts the tail one cell down in the
  same array.
\<close>

definition del_at :: "world \<Rightarrow> slice \<Rightarrow> nat \<Rightarrow> slice \<times> world" where
  "del_at w q i =
     (if int i = int (s_len q) - 1 then (q\<lparr>s_len := i\<rparr>, w)
      else append_slice w (q\<lparr>s_len := i\<rparr>) (drop (Suc i) (elems w q)))"

section \<open>The registries\<close>

definition syncAddListen :: "world \<Rightarrow> ptr \<Rightarrow> world" where
  "syncAddListen w l =
     (let (q, w') = append_slice w (connServer (net w)) [l] in
      w'\<lparr>net := (net w')\<lparr>connServer := q\<rparr>\<rparr>)"

definition syncAddClient :: "world \<Rightarrow> ptr \<Rightarrow> unit res" where
  "syncAddClient w c =
     (case conns w c of
        None \<Rightarrow> Panic NilDeref w
      | Some cn \<Rightarrow>
          (case c_listen cn of
             None \<Rightarrow>
               (let (q, w') = append_slice w (connClient (net w)) [c] in
                Done () (w'\<lparr>net := (net w')\<lparr>connClient := q\<rparr>\<rparr>))
           | Some l \<Rightarrow>
               (case listeners w l of
                  None \<Rightarrow> Panic NilDeref w
                | Some ls \<Rightarrow>
                    (let (q, w') = append_slice w (l_conns ls) [c] in
                     Done () (w'\<lparr>listeners := (listeners w')(l \<mapsto> ls\<lparr>l_conns := q\<rparr>)\<rparr>)))))"

definition syncDelClient :: "world \<Rightarrow> ptr \<Rightarrow> unit res" where
  "syncDelClient w c =
     (case conns w c of
        None \<Rightarrow> Panic NilDeref w
      | Some cn \<Rightarrow>
          (case c_listen cn of
             None \<Rightarrow>
               (let q = connClient (net w) in
                case range_find c (elems w q) 0 of
                  None \<Rightarrow> Done () w
                | Some i \<Rightarrow>
                    (let (q', w') = del_at w q i in
                     Done () (w'\<lparr>net := (net w')\<lparr>connClient := q'\<rparr>\<rparr>)))
           | Some l \<Rightarrow>
               (case listeners w l of
                  None \<Rightarrow> Panic NilDeref w
                | Some ls \<Rightarrow>
                    (let q = l_conns ls in
                     case range_find c (elems w q) 0 of
                       None \<Rightarrow> Done () w
                     | Some i \<Rightarrow>
                         (let (q', w') = del_at w q i in
                          Done () (w'\<lparr>listeners := (listeners w')(l \<mapsto> ls\<lparr>l_conns := q'\<rparr>)\<rparr>))))))"

text \<open>The registry a connection belongs to, as its slice shows it.\<close>

definition registry :: "world \<Rightarrow> ptr \<Rightarrow> ptr list" where
  "registry w c =
     (case conns w c of
        None \<Rightarrow> []
      | Some cn \<Rightarrow>
          (case c_listen cn of
             None \<Rightarrow> elems w (connClient (net w))
           | Some l \<Rightarrow>
               (case listeners w l of None \<Rightarrow> [] | Some ls \<Rightarrow> elems w (l_conns ls))))"

section \<open>Closing\<close>

definition CloseConn :: "world \<Rightarrow> ptr \<Rightarrow> error option res" where
  "CloseConn w c =
     (case conns w c of
        None \<Rightarrow> Panic NilDeref w
      | Some cn \<Rightarrow>
          if c_status cn = StatusConnected then
            (let w1 = w\<lparr>conns := (conns w)(c \<mapsto> cn\<lparr>c_status := StatusBroken\<rparr>)\<rparr> in
             case chan_close (c_msgChan cn) of
               None \<Rightarrow> Panic ''close of closed channel'' w1
             | Some ch \<Rightarrow>
                 (let w2 = w\<lparr>conns := (conns w)(c \<mapsto>
                              cn\<lparr>c_status := StatusBroken, c_msgChan := ch,
                                 c_conn := sock_close (c_conn cn)\<rparr>)\<rparr> in
                  case syncDelClient w2 c of
                    Done _ w3 \<Rightarrow> Done None w3
                  | Panic m w3 \<Rightarrow> Panic m w3
                  | Blocked w3 \<Rightarrow> Blocked w3))
          else Done None w)"

text \<open>
  \<open>for _, v := range s { body(v) }\<close> over a slice of pointers. The slice header is
  read once, before the loop: the array \<open>a\<close> and the number of iterations are fixed
  then. Each iteration reads cell \<open>i\<close> of that array as the world has it by then,
  so it sees what earlier iterations wrote into the array.
\<close>

fun range_ptrs :: "(world \<Rightarrow> ptr \<Rightarrow> 'a res) \<Rightarrow> world \<Rightarrow> ptr \<Rightarrow> nat \<Rightarrow> nat \<Rightarrow> unit res" where
  "range_ptrs body w a i 0 = Done () w"
| "range_ptrs body w a i (Suc k) =
     (case arr_get w a i of
        None \<Rightarrow> Panic ''index out of range'' w
      | Some v \<Rightarrow>
          (case body w v of
             Done _ w' \<Rightarrow> range_ptrs body w' a (Suc i) k
           | Panic m w' \<Rightarrow> Panic m w'
           | Blocked w' \<Rightarrow> Blocked w'))"

definition CloseListen :: "world \<Rightarrow> ptr \<Rightarrow> error option res" where
  "CloseListen w l =
     (case listeners w l of
        None \<Rightarrow> Panic NilDeref w
      | Some ls \<Rightarrow>
          if l_status ls = StatusListenning then
            (case range_ptrs CloseConn w (s_arr (l_conns ls)) 0 (s_len (l_conns ls)) of
               Done _ w' \<Rightarrow>
                 (case listeners w' l of
                    None \<Rightarrow> Panic NilDeref w'
                  | Some ls' \<Rightarrow>
                      Done None (w'\<lparr>listeners := (listeners w')(l \<mapsto>
                        ls'\<lparr>l_status := StatusBroken,
                            l_listen := (l_listen ls')\<lparr>ls_closed := True\<rparr>\<rparr>)\<rparr>))
             | Panic m w' \<Rightarrow> Panic m w'
             | Blocked w' \<Rightarrow> Blocked w')
          else Done None w)"

definition SimpleNetDestroy :: "world \<Rightarrow> unit res" where
  "SimpleNetDestroy w =
     (case chan_close (events (net w)) of
        None \<Rightarrow> Panic ''close of closed channel'' w
      | Some ch \<Rightarrow>
          (let w1 = w\<lparr>net := (net w)\<lparr>events := ch\<rparr>\<rparr> in
           case range_ptrs CloseConn w1 (s_arr (connClient (net w1))) 0 (s_len (connClient (net w1))) of
             Done _ w2 \<Rightarrow>
               (case range_ptrs CloseListen w2 (s_arr (connServer (net w2))) 0
                       (s_len (connServer (net w2))) of
                  Done _ w3 \<Rightarrow> Done () (w3\<lparr>net := (net w3)\<lparr>destroy := True\<rparr>\<rparr>)
                | Panic m w3 \<Rightarrow> Panic m w3
                | Blocked w3 \<Rightarrow> Blocked w3)
           | Panic m w2 \<Rightarrow> Panic m w2
           | Blocked w2 \<Rightarrow> Blocked w2))"

section \<open>The event queue and the shared error handler\<close>

text \<open>Sequencing: the rest of a function runs only if the step before it returned.\<close>

definition bind_res :: "'a res \<Rightarrow> ('a \<Rightarrow> world \<Rightarrow> 'b res) \<Rightarrow> 'b res" where
  "bind_res r f = (case r of Done x w \<Rightarrow> f x w | Panic m w \<Rightarrow> Panic m w | Blocked w \<Rightarrow> Blocked w)"

text \<open>\<open>n.events <- event\<close>\<close>

definition emit :: "world \<Rightarrow> ConnEvent \<Rightarrow> unit res" where
  "emit w ev =
     (case chan_send (events (net w)) ev of
        Sent ch \<Rightarrow> Done () (w\<lparr>net := (net w)\<lparr>events := ch\<rparr>\<rparr>)
      | SendPanic \<Rightarrow> Panic ''send on closed channel'' w
      | SendBlocks \<Rightarrow> Blocked w)"

definition checkConnErr :: "world \<Rightarrow> nat \<Rightarrow> error option \<Rightarrow> ptr \<Rightarrow> error option res" where
  "checkConnErr w count err c =
     (case err of
        None \<Rightarrow> Done None w
      | Some e \<Rightarrow>
          (case conns w c of
             None \<Rightarrow> Panic NilDeref w
           | Some cn \<Rightarrow>
               if destroy (net w) then Done (Some e) w
               else
                 bind_res
                   (if c_status cn = StatusConnected then
                      (case chan_close (c_msgChan cn) of
                         None \<Rightarrow> Panic ''close of closed channel'' w
                       | Some ch \<Rightarrow>
                           syncDelClient
                             (w\<lparr>conns := (conns w)(c \<mapsto>
                                  cn\<lparr>c_msgChan := ch, c_conn := sock_close (c_conn cn),
                                     c_status := StatusBroken\<rparr>)\<rparr>) c)
                    else Done () w)
                   (\<lambda>_ w1.
                      bind_res
                        (emit w1
                           \<lparr>EventType = (if e = EOF then EventConnectionClosed
                                         else EventConnectionError),
                            Conn = Some c, Data = Error e\<rparr>)
                        (\<lambda>_ w2. Done (Some e) w2))))"

section \<open>The read and write tasks\<close>

text \<open>How one iteration of a task's \<open>for\<close> loop ends: the loop goes on, or the task returns.\<close>

datatype ctl = Continue | Return

text \<open>\<open>conn.upTime = time.Now()\<close>, the last statement of an iteration.\<close>

definition touch :: "world \<Rightarrow> ptr \<Rightarrow> ctl res" where
  "touch w c =
     (case conns w c of
        None \<Rightarrow> Panic NilDeref w
      | Some cn \<Rightarrow> Done Continue (w\<lparr>conns := (conns w)(c \<mapsto> cn\<lparr>c_upTime := now w\<rparr>)\<rparr>))"

text \<open>
  \<open>count, err := conn.conn.Read(buf)\<close> with \<open>buf := make([]byte, k)\<close>, followed by
  \<open>checkConnErr(count, err, conn)\<close>: the buffer as the call left it, the count and
  what \<open>checkConnErr\<close> returned.
\<close>

definition conn_read :: "world \<Rightarrow> ptr \<Rightarrow> nat \<Rightarrow> (nat \<times> byte list \<times> error option) res" where
  "conn_read w c k =
     (case conns w c of
        None \<Rightarrow> Panic NilDeref w
      | Some cn \<Rightarrow>
          (case sock_read (c_conn cn) k of
             None \<Rightarrow> Blocked w
           | Some (count, buf, err, sk) \<Rightarrow>
               bind_res (checkConnErr (w\<lparr>conns := (conns w)(c \<mapsto> cn\<lparr>c_conn := sk\<rparr>)\<rparr>) count err c)
                 (\<lambda>r w'. Done (count, buf, r) w')))"

text \<open>
  \<open>headlen := (uint32)(0); if conn.proto != nil { headlen = conn.proto.HeadLen() }\<close>
\<close>

definition headlen_of :: "Connection \<Rightarrow> uint32" where
  "headlen_of cn = (case c_proto cn of None \<Rightarrow> 0 | Some p \<Rightarrow> HeadLen p)"

text \<open>
  A framed iteration of \<open>handleRead\<close> from \<open>conn.proto.BodyLen(head)\<close> on, once
  the read of the header has passed \<open>checkConnErr\<close>.
\<close>

definition read_frame :: "world \<Rightarrow> ptr \<Rightarrow> IProto \<Rightarrow> byte list \<Rightarrow> ctl res" where
  "read_frame w c p head =
     (case BodyLen p head of
        Inl e \<Rightarrow>
          bind_res (emit w \<lparr>EventType = EventProtoError, Conn = Some c, Data = Error e\<rparr>)
            (\<lambda>_ w1. Done Continue w1)
      | Inr (headmsg, bodylen) \<Rightarrow>
          bind_res (conn_read w c (unat bodylen))
            (\<lambda>(count, body, err) w1.
               if err \<noteq> None then Done Return w1
               else
                 (case Parse p headmsg body of
                    Inl e \<Rightarrow>
                      bind_res
                        (emit w1 \<lparr>EventType = EventProtoError, Conn = Some c, Data = Error e\<rparr>)
                        (\<lambda>_ w2. Done Continue w2)
                  | Inr data \<Rightarrow>
                      bind_res
                        (emit w1 \<lparr>EventType = EventNewConnectionData, Conn = Some c,
                                  Data = data\<rparr>)
                        (\<lambda>_ w2. touch w2 c))))"

text \<open>One iteration of the loop of \<open>handleRead\<close>.\<close>

definition read_iter :: "world \<Rightarrow> ptr \<Rightarrow> ctl res" where
  "read_iter w c =
     (case conns w c of
        None \<Rightarrow> Panic NilDeref w
      | Some cn \<Rightarrow>
          (if headlen_of cn \<le> 0 then
             bind_res (conn_read w c 1)
               (\<lambda>(count, buf, err) w1.
                  if err \<noteq> None then Done Return w1
                  else
                    bind_res
                      (emit w1 \<lparr>EventType = EventNewConnectionData, Conn = Some c, Data = Bytes buf\<rparr>)
                      (\<lambda>_ w2. touch w2 c))
           else
             (case c_proto cn of
                None \<Rightarrow> Panic NilDeref w
              | Some p \<Rightarrow>
                  bind_res (conn_read w c (unat (headlen_of cn)))
                    (\<lambda>(count, head, err) w1.
                       if err \<noteq> None then Done Return w1 else read_frame w1 c p head))))"


text \<open>What is left for a connection's read task to read, and for its write task to write.\<close>

fun rd_weight :: "rd \<Rightarrow> nat" where
  "rd_weight (RData bs) = Suc (length bs)"
| "rd_weight (RErr e) = 1"

definition unread :: "world \<Rightarrow> ptr \<Rightarrow> nat" where
  "unread w c =
     (case conns w c of
        None \<Rightarrow> 0
      | Some cn \<Rightarrow> sum_list (map rd_weight (sk_incoming (c_conn cn))))"


section \<open>Accepting, listening and connecting\<close>

text \<open>\<open>atomic.AddInt64(&n.nextid, 1)\<close>: the counter after the addition, which wraps.\<close>

definition new_id :: "world \<Rightarrow> int64 \<times> world" where
  "new_id w = (nextid (net w) + 1, w\<lparr>net := (net w)\<lparr>nextid := nextid (net w) + 1\<rparr>\<rparr>)"

definition sock_accept :: "lsock \<Rightarrow> ((error + socket \<times> string \<times> string) \<times> lsock) option" where
  "sock_accept ls =
     (if ls_closed ls then Some (Inl ErrClosed, ls)
      else (case ls_pending ls of
              [] \<Rightarrow> None
            | AErr e # rest \<Rightarrow> Some (Inl e, ls\<lparr>ls_pending := rest\<rparr>)
            | AConn la ra inc # rest \<Rightarrow>
                Some (Inr (\<lparr>sk_closed = False, sk_incoming = inc, sk_wfail = None, sk_sent = []\<rparr>,
                           la, ra),
                      ls\<lparr>ls_pending := rest\<rparr>)))"

text \<open>The \<open>Connection\<close> literal of \<open>listening\<close> and of \<open>Connect\<close>.\<close>

definition new_conn ::
  "ptr option \<Rightarrow> int64 \<Rightarrow> socket \<Rightarrow> string \<Rightarrow> string \<Rightarrow> IProto option \<Rightarrow> nat \<Rightarrow> Connection" where
  "new_conn l i sk la ra p t =
     \<lparr>c_listen = l, c_id = i, c_status = StatusConnected, c_conn = sk,
      c_msgChan = make_chan 1024, c_localAddr = la, c_remoteAddr = ra, c_upTime = t,
      c_proto = p\<rparr>"

text \<open>One iteration of the loop of \<open>listening\<close>.\<close>

definition listening_iter :: "world \<Rightarrow> ptr \<Rightarrow> ctl res" where
  "listening_iter w l =
     (case listeners w l of
        None \<Rightarrow> Panic NilDeref w
      | Some ls \<Rightarrow>
          (case sock_accept (l_listen ls) of
             None \<Rightarrow> Blocked w
           | Some (r, lsk) \<Rightarrow>
               (let w1 = w\<lparr>listeners := (listeners w)(l \<mapsto> ls\<lparr>l_listen := lsk\<rparr>)\<rparr> in
                case r of
                  Inl e \<Rightarrow>
                    if l_status ls \<noteq> StatusListenning then Done Return w1 else Done Continue w1
                | Inr (sk, la, ra) \<Rightarrow>
                    (case new_id w1 of
                       (i, w2) \<Rightarrow>
                         (let c = next_ptr w2;
                              w3 = w2\<lparr>conns := (conns w2)(c \<mapsto>
                                        new_conn (Some l) i sk la ra (l_proto ls) (now w2)),
                                      next_ptr := Suc c\<rparr>
                          in
                          if (case l_proto ls of None \<Rightarrow> False
                              | Some p \<Rightarrow> \<not> FilterAccept p i la ra)
                          then Done Continue w3
                          else
                            bind_res (syncAddClient w3 c)
                              (\<lambda>_ w4.
                                 bind_res
                                   (emit w4 \<lparr>EventType = EventNewConnection, Conn = Some c,
                                             Data = Nil\<rparr>)
                                   (\<lambda>_ w5.
                                      Done Continue
                                        (w5\<lparr>tasks := tasks w5 @ [TRead c, TWrite c]\<rparr>))))))))"

text \<open>
  \<open>Listen\<close> and \<open>Connect\<close>. What \<open>net.Listen("tcp", addr)\<close> and
  \<open>net.Dial("tcp", addr)\<close> returned for the address is the argument \<open>r\<close>.
\<close>

definition Listen :: "world \<Rightarrow> error + lsock \<Rightarrow> IProto option \<Rightarrow> (error + ptr) res" where
  "Listen w r p =
     (case r of
        Inl e \<Rightarrow> Done (Inl e) w
      | Inr lsk \<Rightarrow>
          (case new_id w of
             (i, w1) \<Rightarrow>
               (let l = next_ptr w1;
                    w2 = w1\<lparr>listeners := (listeners w1)(l \<mapsto>
                              \<lparr>l_id = i, l_status = StatusListenning, l_listen = lsk,
                               l_conns = nil_slice, l_proto = p\<rparr>),
                            next_ptr := Suc l\<rparr>;
                    w3 = syncAddListen w2 l
                in Done (Inr l) (w3\<lparr>tasks := tasks w3 @ [TListening l]\<rparr>))))"

definition Connect ::
  "world \<Rightarrow> error + socket \<times> string \<times> string \<Rightarrow> IProto option \<Rightarrow> (error + ptr) res" where
  "Connect w r p =
     (case r of
        Inl e \<Rightarrow> Done (Inl e) w
      | Inr (sk, la, ra) \<Rightarrow>
          (case new_id w of
             (i, w1) \<Rightarrow>
               (let c = next_ptr w1;
                    w2 = w1\<lparr>conns := (conns w1)(c \<mapsto> new_conn None i sk la ra p (now w1)),
                            next_ptr := Suc c\<rparr>
                in bind_res (syncAddClient w2 c)
                     (\<lambda>_ w3. Done (Inr c) (w3\<lparr>tasks := tasks w3 @ [TRead c, TWrite c]\<rparr>)))))"

definition NewSimpleNet :: SimpleNet where
  "NewSimpleNet =
     \<lparr>events = make_chan 1024, connClient = nil_slice, connServer = nil_slice,
      nextid = 0, destroy = False\<rparr>"

section \<open>Polling and sending\<close>

text \<open>
  \<open>PollEvent\<close> is one \<open>select\<close> between the event queue and a timer. The queue's
  case is ready when the queue holds an event or is closed; when it is not ready,
  nothing but the timer can end the wait. When both cases are ready the \<open>select\<close>
  takes either: \<open>timer_first\<close> says that the timer had fired and was taken.
\<close>

definition PollEvent :: "world \<Rightarrow> bool \<Rightarrow> (error + ConnEvent) res" where
  "PollEvent w timer_first =
     (case chan_recv (events (net w)) of
        RecvBlocks \<Rightarrow> Done (Inr \<lparr>EventType = EventTimeout, Conn = None, Data = Nil\<rparr>) w
      | RecvClosed \<Rightarrow>
          if timer_first then Done (Inr \<lparr>EventType = EventTimeout, Conn = None, Data = Nil\<rparr>) w
          else Done (Inl (Err ''SimpleNet destroyed'')) w
      | Recv ev ch \<Rightarrow>
          if timer_first then Done (Inr \<lparr>EventType = EventTimeout, Conn = None, Data = Nil\<rparr>) w
          else Done (Inr ev) (w\<lparr>net := (net w)\<lparr>events := ch\<rparr>\<rparr>))"

text \<open>\<open>conn.msgChan <- msg\<close>\<close>

definition post :: "world \<Rightarrow> ptr \<Rightarrow> Connection \<Rightarrow> byte list \<Rightarrow> error option res" where
  "post w c cn msg =
     (case chan_send (c_msgChan cn) msg of
        Sent ch \<Rightarrow> Done None (w\<lparr>conns := (conns w)(c \<mapsto> cn\<lparr>c_msgChan := ch\<rparr>)\<rparr>)
      | SendPanic \<Rightarrow> Panic ''send on closed channel'' w
      | SendBlocks \<Rightarrow> Blocked w)"

definition SendData :: "world \<Rightarrow> ptr \<Rightarrow> any \<Rightarrow> error option res" where
  "SendData w c data =
     (case conns w c of
        None \<Rightarrow> Panic NilDeref w
      | Some cn \<Rightarrow>
          if c_status cn \<noteq> StatusConnected then Done (Some (Err ''not connected connection'')) w
          else
            (case c_proto cn of
               None \<Rightarrow>
                 (case data of
                    Bytes msg \<Rightarrow> post w c cn msg
                  | _ \<Rightarrow> Done (Some (Err ''unexpect data type'')) w)
             | Some p \<Rightarrow>
                 (case Serialize p data of
                    Inl e \<Rightarrow> Done (Some e) w
                  | Inr msg \<Rightarrow> post w c cn msg)))"

section \<open>Well-formed slices and example worlds\<close>

text \<open>
  A slice as the runtime keeps it: its length is within its capacity, and its array has
  as many cells as the capacity (a slice of capacity 0 needs no array).
\<close>

definition slice_ok :: "world \<Rightarrow> slice \<Rightarrow> bool" where
  "slice_ok w s =
     (s_len s \<le> s_cap s \<and>
      (case arrays w (s_arr s) of None \<Rightarrow> s_cap s = 0 | Some xs \<Rightarrow> length xs = s_cap s))"

text \<open>The registry of a connection exists and its slice is well formed.\<close>

definition registry_ok :: "world \<Rightarrow> ptr \<Rightarrow> bool" where
  "registry_ok w c =
     (case conns w c of
        None \<Rightarrow> False
      | Some cn \<Rightarrow>
          (case c_listen cn of
             None \<Rightarrow> slice_ok w (connClient (net w))
           | Some l \<Rightarrow>
               (case listeners w l of None \<Rightarrow> False | Some ls \<Rightarrow> slice_ok w (l_conns ls))))"

text \<open>The event \<open>checkConnErr\<close> emits for the error \<open>e\<close> on the connection \<open>c\<close>.\<close>

definition io_event :: "ptr \<Rightarrow> error \<Rightarrow> ConnEvent" where
  "io_event c e =
     \<lparr>EventType = (if e = EOF then EventConnectionClosed else EventConnectionError),
      Conn = Some c, Data = Error e\<rparr>"

text \<open>A send on the channel returns at once: it is open and has room.\<close>

definition can_send :: "'a chan \<Rightarrow> bool" where
  "can_send ch = (\<not> ch_closed ch \<and> length (ch_buf ch) < ch_cap ch)"

text \<open>
  Example worlds: a connection as \<open>Connect\<close> or the accept loop makes it, an engine
  as \<open>NewSimpleNet\<close> makes it, a listener with three accepted connections, and an
  engine with three client connections.
\<close>

definition ex_sock :: socket where
  "ex_sock = \<lparr>sk_closed = False, sk_incoming = [], sk_wfail = None, sk_sent = []\<rparr>"

definition ex_conn :: "ptr option \<Rightarrow> int64 \<Rightarrow> Connection" where
  "ex_conn l i = new_conn l i ex_sock ''127.0.0.1:9000'' ''127.0.0.1:5000'' None 0"

definition ex_listener :: "slice \<Rightarrow> Listener" where
  "ex_listener q =
     \<lparr>l_id = 1, l_status = StatusListenning,
      l_listen = \<lparr>ls_closed = False, ls_pending = []\<rparr>, l_conns = q, l_proto = None\<rparr>"

definition server3 :: world where
  "server3 =
     \<lparr>net = NewSimpleNet\<lparr>connServer := \<lparr>s_arr = 1, s_len = 1, s_cap = 1\<rparr>, nextid := 4\<rparr>,
      conns = [10 \<mapsto> ex_conn (Some 5) 2, 11 \<mapsto> ex_conn (Some 5) 3, 12 \<mapsto> ex_conn (Some 5) 4],
      listeners = [5 \<mapsto> ex_listener \<lparr>s_arr = 2, s_len = 3, s_cap = 4\<rparr>],
      arrays = [1 \<mapsto> [5], 2 \<mapsto> [10, 11, 12, 0]],
      tasks = [], now = 0, next_ptr = 13, grow = (\<lambda>c. 2 * c)\<rparr>"

definition clients3 :: world where
  "clients3 =
     \<lparr>net = NewSimpleNet\<lparr>connClient := \<lparr>s_arr = 2, s_len = 3, s_cap = 4\<rparr>, nextid := 3\<rparr>,
      conns = [10 \<mapsto> ex_conn None 1, 11 \<mapsto> ex_conn None 2, 12 \<mapsto> ex_conn None 3],
      listeners = Map.empty,
      arrays = [2 \<mapsto> [10, 11, 12, 0]],
      tasks = [], now = 0, next_ptr = 13, grow = (\<lambda>c. 2 * c)\<rparr>"

text \<open>The same world with the peer's deliveries, or the mailbox, of one connection set.\<close>

definition feed :: "world \<Rightarrow> ptr \<Rightarrow> rd list \<Rightarrow> world" where
  "feed w c rds =
     (case conns w c of
        None \<Rightarrow> w
      | Some cn \<Rightarrow> w\<lparr>conns := (conns w)(c \<mapsto> cn\<lparr>c_conn := (c_conn cn)\<lparr>sk_incoming := rds\<rparr>\<rparr>)\<rparr>)"

definition queue :: "world \<Rightarrow> ptr \<Rightarrow> byte list list \<Rightarrow> error option \<Rightarrow> world" where
  "queue w c msgs werr =
     (case conns w c of
        None \<Rightarrow> w
      | Some cn \<Rightarrow>
          w\<lparr>conns := (conns w)(c \<mapsto>
               cn\<lparr>c_msgChan := (c_msgChan cn)\<lparr>ch_buf := msgs\<rparr>,
                  c_conn := (c_conn cn)\<lparr>sk_wfail := werr\<rparr>\<rparr>)\<rparr>)"




text \<open>
  A protocol for the examples: a frame is a tag byte, a length byte (at most 16) and
  that many body bytes, none of them zero; the message is the tag followed by the body.
  It refuses connections from one peer address.
\<close>

definition len_proto :: IProto where
  "len_proto =
     \<lparr>FilterAccept = (\<lambda>i la ra. ra \<noteq> ''10.0.0.66:4000''),
      HeadLen = 2,
      BodyLen = (\<lambda>head. case head of
                   [t, n] \<Rightarrow> if n \<le> 16 then Inr (Bytes [t], ucast n) else Inl (Err ''frame too long'')
                 | _ \<Rightarrow> Inl (Err ''bad header'')),
      Parse = (\<lambda>h body. case h of
                 Bytes t \<Rightarrow> if 0 \<in> set body then Inl (Err ''zero byte'') else Inr (Bytes (t @ body))
               | _ \<Rightarrow> Inl (Err ''bad header'')),
      Serialize = (\<lambda>d. case d of
                     Bytes (t # b) \<Rightarrow> Inr (t # of_nat (length b) # b)
                   | _ \<Rightarrow> Inl (Err ''not a message''))\<rparr>"

text \<open>The same world with the protocol, or the status, of one connection set, or with events queued.\<close>

definition with_proto :: "world \<Rightarrow> ptr \<Rightarrow> IProto \<Rightarrow> world" where
  "with_proto w c p =
     (case conns w c of
        None \<Rightarrow> w
      | Some cn \<Rightarrow> w\<lparr>conns := (conns w)(c \<mapsto> cn\<lparr>c_proto := Some p\<rparr>)\<rparr>)"

definition with_status :: "world \<Rightarrow> ptr \<Rightarrow> status \<Rightarrow> world" where
  "with_status w c st =
     (case conns w c of
        None \<Rightarrow> w
      | Some cn \<Rightarrow> w\<lparr>conns := (conns w)(c \<mapsto> cn\<lparr>c_status := st\<rparr>)\<rparr>)"

definition pending :: "world \<Rightarrow> ConnEvent list \<Rightarrow> world" where
  "pending w evs = w\<lparr>net := (net w)\<lparr>events := (events (net w))\<lparr>ch_buf := evs\<rparr>\<rparr>\<rparr>"

definition ev10 :: ConnEvent where
  "ev10 = \<lparr>EventType = EventNewConnection, Conn = Some 10, Data = Nil\<rparr>"

text \<open>The test \<open>msg, ok := (data).([]byte)\<close> of \<open>SendData\<close>.\<close>

definition is_bytes :: "any \<Rightarrow> bool" where
  "is_bytes d = (case d of Bytes _ \<Rightarrow> True | _ \<Rightarrow> False)"

text \<open>
  What a call leaves behind: the world of any outcome, its queued events, what
  \<open>SendData\<close> returned and the mailbox after, what \<open>PollEvent\<close> returned and the
  queue after, and a connection after one iteration of its read task.
\<close>

definition world_of :: "'a res \<Rightarrow> world" where
  "world_of r = (case r of Done _ w \<Rightarrow> w | Panic _ w \<Rightarrow> w | Blocked w \<Rightarrow> w)"

definition queued :: "world \<Rightarrow> ConnEvent list" where
  "queued w = ch_buf (events (net w))"

definition mailbox :: "error option res \<Rightarrow> ptr \<Rightarrow> (error option \<times> byte list list) option" where
  "mailbox r c =
     (case r of
        Done e w \<Rightarrow> Some (e, case conns w c of None \<Rightarrow> [] | Some cn \<Rightarrow> ch_buf (c_msgChan cn))
      | _ \<Rightarrow> None)"

definition polled :: "(error + ConnEvent) res \<Rightarrow> ((error + ConnEvent) \<times> ConnEvent list) option" where
  "polled r = (case r of Done x w \<Rightarrow> Some (x, ch_buf (events (net w))) | _ \<Rightarrow> None)"

definition after_iter :: "ctl res \<Rightarrow> ptr \<Rightarrow> (ctl \<times> status option \<times> bool option \<times> bool option \<times> ptr list \<times> ConnEvent list) option" where
  "after_iter r c =
     (case r of
        Done x w \<Rightarrow>
          Some (x, map_option c_status (conns w c),
                map_option (ch_closed \<circ> c_msgChan) (conns w c),
                map_option (sk_closed \<circ> c_conn) (conns w c),
                registry w c, ch_buf (events (net w)))
      | _ \<Rightarrow> None)"

text \<open>
  An event of kind \<open>EventNewConnectionData\<close> carries a byte slice of length 1 (events
  of any other kind pass).
\<close>

definition one_byte :: "ConnEvent \<Rightarrow> bool" where
  "one_byte ev =
     (if EventType ev = EventNewConnectionData
      then (case Data ev of Bytes b \<Rightarrow> length b = 1 | _ \<Rightarrow> False)
      else True)"


text \<open>
  \<open>SimpleNetDestroy\<close> as another goroutine finds it after \<open>close(n.events)\<close> and the
  first \<open>k\<close> iterations of its loop over \<open>n.connClient\<close>: the queue is closed, and the
  flag \<open>destroy\<close>, which is set last, is not set yet.
\<close>

definition destroying :: "world \<Rightarrow> nat \<Rightarrow> unit res" where
  "destroying w k =
     (case chan_close (events (net w)) of
        None \<Rightarrow> Panic ''close of closed channel'' w
      | Some ch \<Rightarrow>
          (let w1 = w\<lparr>net := (net w)\<lparr>events := ch\<rparr>\<rparr> in
           range_ptrs CloseConn w1 (s_arr (connClient (net w1))) 0 k))"


text \<open>
  The operations that create objects, one step of each, and a run of them: \<open>Listen\<close>,
  \<open>Connect\<close>, and one iteration of the accept loop of a listener. The id of an
  object is read from the heap; the ids a step assigns are those of the objects it
  allocated, in the order of allocation, and the ids of a run are those of its steps.
\<close>

datatype op =
  OpListen "error + lsock" "IProto option"
  | OpConnect "error + socket \<times> string \<times> string" "IProto option"
  | OpAccept ptr

fun step :: "world \<Rightarrow> op \<Rightarrow> world" where
  "step w (OpListen r p) = world_of (Listen w r p)"
| "step w (OpConnect r p) = world_of (Connect w r p)"
| "step w (OpAccept l) = world_of (listening_iter w l)"

definition id_of :: "world \<Rightarrow> ptr \<Rightarrow> int64 option" where
  "id_of w a =
     (case conns w a of
        Some cn \<Rightarrow> Some (c_id cn)
      | None \<Rightarrow> map_option l_id (listeners w a))"

definition new_ids :: "world \<Rightarrow> world \<Rightarrow> int64 list" where
  "new_ids w w' = List.map_filter (id_of w') [next_ptr w..<next_ptr w']"

fun run_ids :: "world \<Rightarrow> op list \<Rightarrow> int64 list" where
  "run_ids w [] = []"
| "run_ids w (x # xs) = new_ids w (step w x) @ run_ids (step w x) xs"

text \<open>No object lies at or beyond the next free address.\<close>

definition heap_ok :: "world \<Rightarrow> bool" where
  "heap_ok w = (\<forall>a. a < next_ptr w \<or> id_of w a = None)"

text \<open>The world of a new engine: nothing allocated yet.\<close>

definition new_world :: world where
  "new_world =
     \<lparr>net = NewSimpleNet, conns = Map.empty, listeners = Map.empty, arrays = Map.empty,
      tasks = [], now = 0, next_ptr = 1, grow = (\<lambda>c. 2 * c)\<rparr>"

text \<open>
  What a step does to the ids: none assigned, or the next id assigned to the object at
  the next free address.
\<close>

definition same_ids :: "world \<Rightarrow> world \<Rightarrow> bool" where
  "same_ids w w' =
     (nextid (net w') = nextid (net w) \<and> id_of w' = id_of w \<and> next_ptr w \<le> next_ptr w')"

definition one_new_id :: "world \<Rightarrow> world \<Rightarrow> bool" where
  "one_new_id w w' =
     (nextid (net w') = nextid (net w) + 1 \<and>
      id_of w' = (id_of w)(next_ptr w := Some (nextid (net w) + 1)) \<and>
      next_ptr w < next_ptr w')"

text \<open>
  A run: a listener with one connection waiting, its accept, a refused dial and a
  successful one.
\<close>

definition ops3 :: "op list" where
  "ops3 =
     [OpListen (Inr \<lparr>ls_closed = False, ls_pending = [AConn ''10.0.0.2:80'' ''10.0.0.1:5000'' []]\<rparr>) None,
      OpAccept 1,
      OpConnect (Inl (Err ''connection refused'')) None,
      OpConnect (Inr (ex_sock, ''10.0.0.1:5001'', ''10.0.0.2:80'')) None]"

text \<open>
  Two runs on a new engine: a listener that accepts three connections, and three
  successful dials.
\<close>

definition serve3 :: "op list" where
  "serve3 =
     [OpListen (Inr \<lparr>ls_closed = False,
                    ls_pending = [AConn ''10.0.0.2:80'' ''10.0.0.1:5000'' [],
                                  AConn ''10.0.0.2:80'' ''10.0.0.1:5001'' [],
                                  AConn ''10.0.0.2:80'' ''10.0.0.1:5002'' []]\<rparr>) None,
      OpAccept 1, OpAccept 1, OpAccept 1]"

definition dial3 :: "op list" where
  "dial3 =
     [OpConnect (Inr (ex_sock, ''10.0.0.1:5000'', ''10.0.0.2:80'')) None,
      OpConnect (Inr (ex_sock, ''10.0.0.1:5001'', ''10.0.0.2:80'')) None,
      OpConnect (Inr (ex_sock, ''10.0.0.1:5002'', ''10.0.0.2:80'')) None]"

text \<open>
  A listener with a protocol and with connections waiting to be accepted, and what an
  iteration of the accept loop leaves: the listener's registry, the queue and the tasks.
\<close>

definition arriving :: "world \<Rightarrow> ptr \<Rightarrow> IProto option \<Rightarrow> acc list \<Rightarrow> world" where
  "arriving w l p accs =
     (case listeners w l of
        None \<Rightarrow> w
      | Some ls \<Rightarrow>
          w\<lparr>listeners := (listeners w)(l \<mapsto>
               ls\<lparr>l_proto := p, l_listen := (l_listen ls)\<lparr>ls_pending := accs\<rparr>\<rparr>)\<rparr>)"

definition accepted :: "ctl res \<Rightarrow> ptr \<Rightarrow> (ctl \<times> ptr list \<times> ConnEvent list \<times> task list) option" where
  "accepted r l =
     (case r of
        Done x w \<Rightarrow>
          Some (x, (case listeners w l of None \<Rightarrow> [] | Some ls \<Rightarrow> elems w (l_conns ls)),
                ch_buf (events (net w)), tasks w)
      | _ \<Rightarrow> None)"

lemmas ex2_defs = len_proto_def with_proto_def with_status_def pending_def ev10_def

lemmas ex_defs = server3_def clients3_def ex_listener_def ex_conn_def ex_sock_def new_conn_def
  NewSimpleNet_def make_chan_def nil_slice_def feed_def queue_def

section \<open>The task loops\<close>

text \<open>
  Every iteration that goes on has taken something from the socket (the read task) or
  from the mailbox (the write task), so on a finite input both loops end: the task
  returns, panics (the deferred \<open>recover\<close> ends it), or blocks with nothing left.
\<close>

lemma bind_res_simps [simp]:
  "bind_res (Done x w) f = f x w"
  "bind_res (Panic m w) f = Panic m w"
  "bind_res (Blocked w) f = Blocked w"
  by (simp_all add: bind_res_def)

lemma bind_res_Done:
  "bind_res r f = Done y w' \<longleftrightarrow> (\<exists>x w1. r = Done x w1 \<and> f x w1 = Done y w')"
  by (cases r) simp_all

lemma emit_Done: "emit w ev = Done x w' \<Longrightarrow> conns w' = conns w"
  by (auto simp: emit_def split: sent.splits)

lemma checkConnErr_None [simp]: "checkConnErr w k None c = Done None w"
  by (simp add: checkConnErr_def)

lemma checkConnErr_Some: "checkConnErr w k (Some e) c = Done r w' \<Longrightarrow> r = Some e"
  by (auto simp: checkConnErr_def bind_res_Done split: option.splits if_splits)

lemma touch_unread: "touch w c = Done x w' \<Longrightarrow> unread w' c = unread w c"
  by (auto simp: touch_def unread_def split: option.splits)

lemma sock_read_weight:
  "sock_read sk k = Some (n, buf, None, sk') \<Longrightarrow>
     sum_list (map rd_weight (sk_incoming sk')) \<le> sum_list (map rd_weight (sk_incoming sk)) \<and>
     (0 < k \<longrightarrow> sum_list (map rd_weight (sk_incoming sk')) < sum_list (map rd_weight (sk_incoming sk)))"
  by (auto simp: sock_read_def Let_def split: if_splits list.splits rd.splits)

lemma checkConnErr_Done_None:
  "checkConnErr w k err c = Done None w' \<Longrightarrow> err = None \<and> w' = w"
  by (cases err) (auto dest: checkConnErr_Some)

lemma conn_read_ok:
  assumes "conn_read w c k = Done (n, buf, None) w'"
  shows "\<exists>cn sk. conns w c = Some cn \<and> sock_read (c_conn cn) k = Some (n, buf, None, sk) \<and>
           w' = w\<lparr>conns := (conns w)(c \<mapsto> cn\<lparr>c_conn := sk\<rparr>)\<rparr>"
  using assms
  by (auto simp: conn_read_def bind_res_Done split: option.splits dest!: checkConnErr_Done_None)

lemma conn_read_unread:
  assumes "conn_read w c k = Done (n, buf, None) w'"
  shows "unread w' c \<le> unread w c \<and> (0 < k \<longrightarrow> unread w' c < unread w c)"
proof -
  from conn_read_ok [OF assms] obtain cn sk where cn: "conns w c = Some cn"
    and rd: "sock_read (c_conn cn) k = Some (n, buf, None, sk)"
    and w': "w' = w\<lparr>conns := (conns w)(c \<mapsto> cn\<lparr>c_conn := sk\<rparr>)\<rparr>"
    by blast
  from sock_read_weight [OF rd] show ?thesis
    by (simp add: unread_def cn w')
qed

lemma emit_unread: "emit w ev = Done x w' \<Longrightarrow> unread w' c = unread w c"
  by (simp add: unread_def emit_Done)

lemma read_frame_unread:
  assumes "read_frame w c p head = Done Continue w'"
  shows "unread w' c \<le> unread w c"
proof (cases "BodyLen p head")
  case (Inl e)
  with assms show ?thesis
    by (auto simp: read_frame_def bind_res_Done dest: emit_unread [where c = c])
next
  case (Inr hb)
  obtain headmsg bodylen where hb: "hb = (headmsg, bodylen)" by (cases hb)
  from assms Inr hb obtain n body w1 where
    r: "conn_read w c (unat bodylen) = Done (n, body, None) w1"
    and rest: "(case Parse p headmsg body of
                  Inl e \<Rightarrow> bind_res (emit w1 \<lparr>EventType = EventProtoError, Conn = Some c, Data = Error e\<rparr>)
                             (\<lambda>_ w2. Done Continue w2)
                | Inr data \<Rightarrow> bind_res (emit w1 \<lparr>EventType = EventNewConnectionData, Conn = Some c,
                                 Data = data\<rparr>) (\<lambda>_ w2. touch w2 c)) = Done Continue w'"
    by (auto simp: read_frame_def bind_res_Done split: if_splits)
  from rest have "unread w' c = unread w1 c"
    by (cases "Parse p headmsg body")
       (auto simp: bind_res_Done dest!: emit_unread [where c = c] touch_unread)
  with conn_read_unread [OF r] show ?thesis by simp
qed

lemma read_iter_unread:
  assumes "read_iter w c = Done Continue w'"
  shows "unread w' c < unread w c"
proof (cases "conns w c")
  case None
  with assms show ?thesis by (simp add: read_iter_def)
next
  case (Some cn)
  show ?thesis
  proof (cases "headlen_of cn \<le> 0")
    case True
    with assms Some obtain n buf w1 w2 where
      r: "conn_read w c 1 = Done (n, buf, None) w1"
      and e: "emit w1 \<lparr>EventType = EventNewConnectionData, Conn = Some c, Data = Bytes buf\<rparr> = Done () w2"
      and t: "touch w2 c = Done Continue w'"
      by (auto simp: read_iter_def bind_res_Done split: if_splits)
    from conn_read_unread [OF r] emit_unread [OF e] touch_unread [OF t]
    show ?thesis by simp
  next
    case False
    then have pos: "0 < unat (headlen_of cn)"
      by (simp add: unat_gt_0)
    from assms Some False obtain p n head w1 where
      r: "conn_read w c (unat (headlen_of cn)) = Done (n, head, None) w1"
      and rest: "read_frame w1 c p head = Done Continue w'"
      by (auto simp: read_iter_def bind_res_Done split: if_splits option.splits)
    from conn_read_unread [OF r] pos have "unread w1 c < unread w c" by simp
    with read_frame_unread [OF rest] show ?thesis by simp
  qed
qed

function handleRead :: "world \<Rightarrow> ptr \<Rightarrow> unit res" where
  "handleRead w c =
     (case read_iter w c of
        Done Continue w' \<Rightarrow> handleRead w' c
      | Done Return w' \<Rightarrow> Done () w'
      | Panic m w' \<Rightarrow> Panic m w'
      | Blocked w' \<Rightarrow> Blocked w')"
  by pat_completeness auto
termination
  by (relation "measure (\<lambda>(w, c). unread w c)") (auto dest: read_iter_unread)

declare handleRead.simps [simp del]




section \<open>Facts about the registries\<close>



lemma elems_length: "slice_ok w s \<Longrightarrow> length (elems w s) = s_len s"
  by (auto simp: slice_ok_def elems_def split: option.splits)


lemma elems_frame [simp]:
  "elems (w\<lparr>net := n\<rparr>) s = elems w s"
  "elems (w\<lparr>conns := cs\<rparr>) s = elems w s"
  "elems (w\<lparr>listeners := ls\<rparr>) s = elems w s"
  "elems (w\<lparr>tasks := ts\<rparr>) s = elems w s"
  by (simp_all add: elems_def)

lemma slice_ok_frame [simp]:
  "slice_ok (w\<lparr>net := n\<rparr>) s = slice_ok w s"
  "slice_ok (w\<lparr>conns := cs\<rparr>) s = slice_ok w s"
  "slice_ok (w\<lparr>listeners := ls\<rparr>) s = slice_ok w s"
  "slice_ok (w\<lparr>tasks := ts\<rparr>) s = slice_ok w s"
  by (simp_all add: slice_ok_def)


lemma registry_conn_upd [simp]:
  assumes "conns w c = Some cn" and "c_listen cn' = c_listen cn"
  shows "registry (w\<lparr>conns := (conns w)(c \<mapsto> cn')\<rparr>) c = registry w c"
    and "registry_ok (w\<lparr>conns := (conns w)(c \<mapsto> cn')\<rparr>) c = registry_ok w c"
  using assms by (simp_all add: registry_def registry_ok_def split: option.splits)

lemma registry_net_events [simp]:
  "registry (w\<lparr>net := (net w)\<lparr>events := ch\<rparr>\<rparr>) c = registry w c"
  by (simp add: registry_def split: option.splits)

section \<open>Facts about the error handler\<close>

lemma bind_res_assoc:
  "bind_res (bind_res r g) f = bind_res r (\<lambda>x w. bind_res (g x w) f)"
  by (cases r) simp_all

lemma emit_can_send:
  "can_send (events (net w)) \<Longrightarrow>
     emit w ev = Done () (w\<lparr>net := (net w)\<lparr>events := (events (net w))\<lparr>ch_buf := ch_buf (events (net w)) @ [ev]\<rparr>\<rparr>\<rparr>)"
  by (simp add: emit_def chan_send_def can_send_def)





text \<open>
  The loop of \<open>SimpleNetDestroy\<close> over \<open>n.connClient\<close> can be cut after any number of
  iterations: what \<open>destroying\<close> leaves is a state \<open>SimpleNetDestroy\<close> goes through.
\<close>

lemma range_ptrs_add:
  "range_ptrs body w a i (k + m) =
     bind_res (range_ptrs body w a i k) (\<lambda>_ w'. range_ptrs body w' a (i + k) m)"
proof (induction k arbitrary: w i)
  case 0
  then show ?case by simp
next
  case (Suc k)
  show ?case
  proof (cases "arr_get w a i")
    case None
    then show ?thesis by simp
  next
    case (Some v)
    then show ?thesis by (cases "body w v") (simp_all add: Suc.IH)
  qed
qed

lemma SimpleNetDestroy_destroying:
  assumes "k \<le> s_len (connClient (net w))"
  shows "SimpleNetDestroy w =
           bind_res (destroying w k)
             (\<lambda>_ w1.
                bind_res (range_ptrs CloseConn w1 (s_arr (connClient (net w))) k
                            (s_len (connClient (net w)) - k))
                  (\<lambda>_ w2.
                     bind_res (range_ptrs CloseListen w2 (s_arr (connServer (net w2))) 0
                                 (s_len (connServer (net w2))))
                       (\<lambda>_ w3. Done () (w3\<lparr>net := (net w3)\<lparr>destroy := True\<rparr>\<rparr>))))"
proof (cases "chan_close (events (net w))")
  case None
  then show ?thesis by (simp add: SimpleNetDestroy_def destroying_def)
next
  case (Some ch)
  let ?w1 = "w\<lparr>net := (net w)\<lparr>events := ch\<rparr>\<rparr>"
  from assms have "s_len (connClient (net w)) = k + (s_len (connClient (net w)) - k)" by simp
  then have "range_ptrs CloseConn ?w1 (s_arr (connClient (net w))) 0 (s_len (connClient (net w))) =
      bind_res (range_ptrs CloseConn ?w1 (s_arr (connClient (net w))) 0 k)
        (\<lambda>_ w'. range_ptrs CloseConn w' (s_arr (connClient (net w))) k (s_len (connClient (net w)) - k))"
    using range_ptrs_add [of CloseConn ?w1 "s_arr (connClient (net w))" 0 k "s_len (connClient (net w)) - k"]
    by simp
  then show ?thesis
    using Some
    by (simp add: SimpleNetDestroy_def destroying_def bind_res_assoc)
       (simp add: bind_res_def split: res.splits)
qed

section \<open>An I/O error ends the task\<close>


lemma conn_read_good:
  assumes "conns w c = Some cn" and "sock_read (c_conn cn) k = Some (n, buf, None, sk)"
  shows "conn_read w c k = Done (n, buf, None) (w\<lparr>conns := (conns w)(c \<mapsto> cn\<lparr>c_conn := sk\<rparr>)\<rparr>)"
  using assms by (simp add: conn_read_def)








section \<open>Facts about the read task\<close>

lemma world_of_simps [simp]:
  "world_of (Done x w) = w" "world_of (Panic m w) = w" "world_of (Blocked w) = w"
  by (simp_all add: world_of_def)

lemma sock_read_length: "sock_read sk k = Some (n, buf, err, sk') \<Longrightarrow> length buf = k \<and> n \<le> k"
  by (auto simp: sock_read_def Let_def split: if_splits list.splits rd.splits)

lemma append_slice_net: "append_slice w s ys = (q, w') \<Longrightarrow> net w' = net w \<and> conns w' = conns w"
  by (auto simp: append_slice_def Let_def split: if_splits option.splits)

lemma del_at_net: "del_at w s i = (q, w') \<Longrightarrow> net w' = net w \<and> conns w' = conns w"
  by (auto simp: del_at_def split: if_splits dest: append_slice_net)

lemma syncDelClient_events:
  "events (net (world_of (syncDelClient w c))) = events (net w) \<and>
   conns (world_of (syncDelClient w c)) = conns w"
  by (auto simp: syncDelClient_def Let_def split: option.splits prod.splits dest!: del_at_net)

lemma emit_queued:
  "queued (world_of (emit w ev)) = queued w @ (case emit w ev of Done _ _ \<Rightarrow> [ev] | _ \<Rightarrow> [])"
  by (simp add: emit_def queued_def chan_send_def)

lemma syncDelClient_queued: "queued (world_of (syncDelClient w c)) = queued w"
  by (simp add: queued_def syncDelClient_events)

lemma checkConnErr_queued:
  "\<exists>new. queued (world_of (checkConnErr w n err c)) = queued w @ new \<and> list_all one_byte new"
proof (cases err)
  case None
  then show ?thesis by simp
next
  case (Some e)
  show ?thesis
  proof (cases "conns w c")
    case None
    with Some show ?thesis by (simp add: checkConnErr_def)
  next
    case cn: (Some cn)
    show ?thesis
    proof (cases "destroy (net w)")
      case True
      with Some cn show ?thesis by (simp add: checkConnErr_def)
    next
      case False
      define r where "r = (if c_status cn = StatusConnected then
                      (case chan_close (c_msgChan cn) of
                         None \<Rightarrow> Panic ''close of closed channel'' w
                       | Some ch \<Rightarrow>
                           syncDelClient
                             (w\<lparr>conns := (conns w)(c \<mapsto>
                                  cn\<lparr>c_msgChan := ch, c_conn := sock_close (c_conn cn),
                                     c_status := StatusBroken\<rparr>)\<rparr>) c)
                    else Done () w)"
      have q: "queued (world_of r) = queued w"
        by (simp add: r_def syncDelClient_queued split: option.splits) (simp add: queued_def)
      have eq: "checkConnErr w n err c =
                  bind_res r (\<lambda>_ w1. bind_res (emit w1 (io_event c e)) (\<lambda>_ w2. Done (Some e) w2))"
        using Some cn False by (simp add: checkConnErr_def r_def io_event_def)
      show ?thesis
      proof (cases r)
        case (Done x w1)
        with q have q1: "queued w1 = queued w" by simp
        have ob: "one_byte (io_event c e)" by (simp add: one_byte_def io_event_def)
        from emit_queued [of w1 "io_event c e"] q1 ob Done show ?thesis
          by (cases "emit w1 (io_event c e)") (simp_all add: eq)
      next
        case (Panic m w1)
        with q show ?thesis by (simp add: eq)
      next
        case (Blocked w1)
        with q show ?thesis by (simp add: eq)
      qed
    qed
  qed
qed

lemma conn_read_queued:
  "\<exists>new. queued (world_of (conn_read w c k)) = queued w @ new \<and> list_all one_byte new"
proof (cases "conns w c")
  case None
  then show ?thesis by (simp add: conn_read_def)
next
  case (Some cn)
  show ?thesis
  proof (cases "sock_read (c_conn cn) k")
    case None
    with Some show ?thesis by (simp add: conn_read_def)
  next
    case rd: (Some r)
    obtain n buf err sk where r: "r = (n, buf, err, sk)" by (cases r)
    let ?w1 = "w\<lparr>conns := (conns w)(c \<mapsto> cn\<lparr>c_conn := sk\<rparr>)\<rparr>"
    from checkConnErr_queued [of ?w1 n err c] obtain new where
      "queued (world_of (checkConnErr ?w1 n err c)) = queued w @ new" "list_all one_byte new"
      by (auto simp: queued_def)
    with Some rd r show ?thesis
      by (cases "checkConnErr ?w1 n err c") (auto simp: conn_read_def)
  qed
qed

lemma touch_queued:
  "conns w c = Some cn \<Longrightarrow>
     touch w c = Done Continue (w\<lparr>conns := (conns w)(c \<mapsto> cn\<lparr>c_upTime := now w\<rparr>)\<rparr>)"
  by (simp add: touch_def)

lemma read_iter_unframed:
  assumes cn: "conns w c = Some cn" and h: "headlen_of cn = 0"
  shows "(\<exists>new. queued (world_of (read_iter w c)) = queued w @ new \<and> list_all one_byte new) \<and>
         (\<forall>w'. read_iter w c = Done Continue w' \<longrightarrow>
                (\<exists>cn'. conns w' c = Some cn' \<and> headlen_of cn' = 0))"
proof -
  let ?f = "\<lambda>(count, buf, err) w1.
                  if err \<noteq> None then Done Return w1
                  else
                    bind_res
                      (emit w1 \<lparr>EventType = EventNewConnectionData, Conn = Some c, Data = Bytes buf\<rparr>)
                      (\<lambda>_ w2. touch w2 c)"
  have eq: "read_iter w c = bind_res (conn_read w c 1) ?f"
    using cn h by (simp add: read_iter_def)
  from conn_read_queued [of w c 1] obtain new0 where
    q0: "queued (world_of (conn_read w c 1)) = queued w @ new0" and l0: "list_all one_byte new0"
    by blast
  show ?thesis
  proof (cases "conn_read w c 1")
    case (Done x w1)
    obtain n buf err where x: "x = (n, buf, err)" by (cases x)
    show ?thesis
    proof (cases err)
      case (Some e)
      with Done x q0 l0 show ?thesis by (auto simp: eq)
    next
      case None
      from conn_read_ok [of w c 1 n buf w1] Done x None obtain sk where
        rd: "sock_read (c_conn cn) 1 = Some (n, buf, None, sk)"
        and w1: "w1 = w\<lparr>conns := (conns w)(c \<mapsto> cn\<lparr>c_conn := sk\<rparr>)\<rparr>"
        using cn by auto
      from sock_read_length [OF rd] have lb: "length buf = 1" by simp
      let ?ev = "\<lparr>EventType = EventNewConnectionData, Conn = Some c, Data = Bytes buf\<rparr>"
      have ob: "one_byte ?ev" using lb by (simp add: one_byte_def)
      have q1: "queued w1 = queued w" by (simp add: w1 queued_def)
      have r: "read_iter w c = bind_res (emit w1 ?ev) (\<lambda>_ w2. touch w2 c)"
        using Done x None by (simp add: eq)
      show ?thesis
      proof (cases "emit w1 ?ev")
        case D: (Done u w2)
        from D have c2: "conns w2 = conns w1" by (rule emit_Done)
        then have c2c: "conns w2 c = Some (cn\<lparr>c_conn := sk\<rparr>)" by (simp add: w1)
        from emit_queued [of w1 ?ev] D q1 have q2: "queued w2 = queued w @ [?ev]" by simp
        have ri: "read_iter w c =
                    Done Continue (w2\<lparr>conns := (conns w2)(c \<mapsto> cn\<lparr>c_conn := sk\<rparr>\<lparr>c_upTime := now w2\<rparr>)\<rparr>)"
          using D by (simp add: r touch_queued [OF c2c])
        have "queued (world_of (read_iter w c)) = queued w @ [?ev]"
          using q2 by (simp add: ri queued_def)
        moreover have "headlen_of (cn\<lparr>c_conn := sk\<rparr>\<lparr>c_upTime := now w2\<rparr>) = 0"
          using h by (simp add: headlen_of_def)
        ultimately show ?thesis using ob by (simp add: ri)
      next
        case (Panic m w2)
        with emit_queued [of w1 ?ev] q1 show ?thesis by (simp add: r)
      next
        case (Blocked w2)
        with emit_queued [of w1 ?ev] q1 show ?thesis by (simp add: r)
      qed
    qed
  next
    case (Panic m w1)
    with q0 l0 show ?thesis by (auto simp: eq)
  next
    case (Blocked w1)
    with q0 l0 show ?thesis by (auto simp: eq)
  qed
qed

lemma read_iter_unframed_data:
  assumes cn: "conns w c = Some cn" and h: "headlen_of cn = 0"
    and op: "\<not> sk_closed (c_conn cn)" and inc: "sk_incoming (c_conn cn) = RData (b # bs) # rest"
    and ev: "can_send (events (net w))"
  shows "read_iter w c =
           Done Continue
             (w\<lparr>conns := (conns w)(c \<mapsto>
                   cn\<lparr>c_conn := (c_conn cn)\<lparr>sk_incoming := (if bs = [] then rest else RData bs # rest)\<rparr>,
                      c_upTime := now w\<rparr>),
                net := (net w)\<lparr>events := (events (net w))\<lparr>ch_buf := ch_buf (events (net w)) @
                   [\<lparr>EventType = EventNewConnectionData, Conn = Some c, Data = Bytes [b]\<rparr>]\<rparr>\<rparr>\<rparr>)"
proof -
  have rd: "sock_read (c_conn cn) (Suc 0) =
              Some (1, [b], None, (c_conn cn)\<lparr>sk_incoming := (if bs = [] then rest else RData bs # rest)\<rparr>)"
    using op inc by (simp add: sock_read_def)
  show ?thesis
    using cn h ev
    by (simp add: read_iter_def conn_read_good [OF cn rd] emit_can_send touch_def)
qed















lemma post_can_send:
  "can_send (c_msgChan cn) \<Longrightarrow>
     post w c cn msg =
       Done None (w\<lparr>conns := (conns w)(c \<mapsto>
          cn\<lparr>c_msgChan := (c_msgChan cn)\<lparr>ch_buf := ch_buf (c_msgChan cn) @ [msg]\<rparr>\<rparr>)\<rparr>)"
  by (simp add: post_def chan_send_def can_send_def)

lemma handleRead_unframed_queue:
  assumes "conns w c = Some cn" and "headlen_of cn = 0"
  shows "\<exists>new. queued (world_of (handleRead w c)) = queued w @ new \<and> list_all one_byte new"
  using assms
proof (induction w c arbitrary: cn rule: handleRead.induct)
  case (1 w c)
  from read_iter_unframed [OF "1.prems"] obtain new1 where
    q1: "queued (world_of (read_iter w c)) = queued w @ new1" and l1: "list_all one_byte new1"
    and k: "\<forall>w'. read_iter w c = Done Continue w' \<longrightarrow>
                (\<exists>cn'. conns w' c = Some cn' \<and> headlen_of cn' = 0)"
    by blast
  show ?case
  proof (cases "read_iter w c")
    case (Done x w')
    show ?thesis
    proof (cases x)
      case Continue
      with Done k obtain cn' where "conns w' c = Some cn'" "headlen_of cn' = 0" by auto
      with "1.IH" Done Continue obtain new2 where
        q2: "queued (world_of (handleRead w' c)) = queued w' @ new2" and l2: "list_all one_byte new2"
        by blast
      have "handleRead w c = handleRead w' c"
        using Done Continue by (subst handleRead.simps) simp
      with q1 q2 Done have "queued (world_of (handleRead w c)) = queued w @ (new1 @ new2)" by simp
      with l1 l2 show ?thesis by (intro exI [of _ "new1 @ new2"]) simp
    next
      case Return
      with Done have "handleRead w c = Done () w'" by (subst handleRead.simps) simp
      with q1 l1 Done show ?thesis by auto
    qed
  next
    case (Panic m w')
    then have "handleRead w c = Panic m w'" by (subst handleRead.simps) simp
    with q1 l1 Panic show ?thesis by auto
  next
    case (Blocked w')
    then have "handleRead w c = Blocked w'" by (subst handleRead.simps) simp
    with q1 l1 Blocked show ?thesis by auto
  qed
qed

section \<open>Facts about the accept loop\<close>

lemma elems_frame2 [simp]:
  "elems (w\<lparr>next_ptr := n\<rparr>) s = elems w s"
  by (simp_all add: elems_def)

lemma slice_ok_frame2 [simp]:
  "slice_ok (w\<lparr>next_ptr := n\<rparr>) s = slice_ok w s"
  by (simp_all add: slice_ok_def)

lemma append_slice_one:
  assumes ok: "slice_ok w s" and ap: "append_slice w s [x] = (q, w')"
  shows "elems w' q = elems w s @ [x] \<and> slice_ok w' q \<and> net w' = net w \<and>
         conns w' = conns w \<and> listeners w' = listeners w \<and> tasks w' = tasks w"
proof (cases "s_len s + 1 \<le> s_cap s")
  case True
  with ok obtain xs where xs: "arrays w (s_arr s) = Some xs" and lx: "length xs = s_cap s"
    by (auto simp: slice_ok_def split: option.splits)
  from ap True have q: "q = s\<lparr>s_len := s_len s + 1\<rparr>"
    and w': "w' = w\<lparr>arrays := (arrays w)(s_arr s \<mapsto> take (s_len s) xs @ [x] @ drop (s_len s + 1) xs)\<rparr>"
    by (simp_all add: append_slice_def xs)
  have "elems w' q = take (s_len s) xs @ [x]"
    using True lx by (simp add: elems_def q w')
  moreover have "elems w s = take (s_len s) xs" by (simp add: elems_def xs)
  moreover have "slice_ok w' q" using True lx by (simp add: slice_ok_def q w')
  ultimately show ?thesis by (simp add: w')
next
  case False
  define c where "c = max (s_len s + 1) (grow w (s_cap s))"
  from ap False have q: "q = \<lparr>s_arr = next_ptr w, s_len = s_len s + 1, s_cap = c\<rparr>"
    and w': "w' = w\<lparr>arrays := (arrays w)(next_ptr w \<mapsto> elems w s @ [x] @ replicate (c - (s_len s + 1)) 0),
                    next_ptr := Suc (next_ptr w)\<rparr>"
    by (simp_all add: append_slice_def Let_def c_def)
  have le: "length (elems w s) = s_len s" using ok by (rule elems_length)
  have "elems w' q = elems w s @ [x]" using le by (simp add: elems_def q w')
  moreover have "slice_ok w' q" using le by (simp add: slice_ok_def q w' c_def)
  ultimately show ?thesis by (simp add: w')
qed

lemma listening_iter_dropped:
  assumes ls: "listeners w l = Some ls"
    and ac: "sock_accept (l_listen ls) = Some (Inr (sk, la, ra), lsk)"
    and p: "l_proto ls = Some p" and f: "\<not> FilterAccept p (nextid (net w) + 1) la ra"
  shows "listening_iter w l =
           Done Continue
             (w\<lparr>listeners := (listeners w)(l \<mapsto> ls\<lparr>l_listen := lsk\<rparr>),
                net := (net w)\<lparr>nextid := nextid (net w) + 1\<rparr>,
                conns := (conns w)(next_ptr w \<mapsto>
                   new_conn (Some l) (nextid (net w) + 1) sk la ra (Some p) (now w)),
                next_ptr := Suc (next_ptr w)\<rparr>)"
  using ls ac p f by (simp add: listening_iter_def new_id_def Let_def)

lemma listening_iter_registered:
  assumes ls: "listeners w l = Some ls"
    and ac: "sock_accept (l_listen ls) = Some (Inr (sk, la, ra), lsk)"
    and f: "l_proto ls = None \<or> (\<exists>p. l_proto ls = Some p \<and> FilterAccept p (nextid (net w) + 1) la ra)"
    and ok: "slice_ok w (l_conns ls)" and ev: "can_send (events (net w))"
  shows "\<exists>w' q. listening_iter w l = Done Continue w' \<and>
           listeners w' l = Some (ls\<lparr>l_listen := lsk, l_conns := q\<rparr>) \<and>
           elems w' q = elems w (l_conns ls) @ [next_ptr w] \<and>
           conns w' = (conns w)(next_ptr w \<mapsto>
              new_conn (Some l) (nextid (net w) + 1) sk la ra (l_proto ls) (now w)) \<and>
           ch_buf (events (net w')) = ch_buf (events (net w)) @
              [\<lparr>EventType = EventNewConnection, Conn = Some (next_ptr w), Data = Nil\<rparr>] \<and>
           tasks w' = tasks w @ [TRead (next_ptr w), TWrite (next_ptr w)]"
proof -
  let ?c = "next_ptr w"
  let ?i = "nextid (net w) + 1"
  let ?cn = "new_conn (Some l) ?i sk la ra (l_proto ls) (now w)"
  let ?w3 = "w\<lparr>listeners := (listeners w)(l \<mapsto> ls\<lparr>l_listen := lsk\<rparr>),
                net := (net w)\<lparr>nextid := ?i\<rparr>,
                conns := (conns w)(?c \<mapsto> ?cn), next_ptr := Suc ?c\<rparr>"
  obtain q w4 where ap: "append_slice ?w3 (l_conns ls) [?c] = (q, w4)"
    by (cases "append_slice ?w3 (l_conns ls) [?c]")
  have ok3: "slice_ok ?w3 (l_conns ls)" using ok by simp
  from append_slice_one [OF ok3 ap] have
    e4: "elems w4 q = elems w (l_conns ls) @ [?c]" and n4: "net w4 = net ?w3"
    and c4: "conns w4 = conns ?w3" and l4: "listeners w4 = listeners ?w3" and t4: "tasks w4 = tasks w"
    by simp_all
  let ?w5 = "w4\<lparr>listeners := (listeners w4)(l \<mapsto> ls\<lparr>l_listen := lsk\<rparr>\<lparr>l_conns := q\<rparr>)\<rparr>"
  have sa: "syncAddClient ?w3 ?c = Done () ?w5"
    using ap by (simp add: syncAddClient_def new_conn_def)
  have cs: "can_send (events (net ?w5))" using ev n4 by simp
  have nf: "\<not> (case l_proto ls of None \<Rightarrow> False | Some p \<Rightarrow> \<not> FilterAccept p ?i la ra)"
    using f by (auto split: option.splits)
  let ?w6 = "?w5\<lparr>net := (net ?w5)\<lparr>events := (events (net ?w5))\<lparr>ch_buf := ch_buf (events (net ?w5)) @
                  [\<lparr>EventType = EventNewConnection, Conn = Some ?c, Data = Nil\<rparr>]\<rparr>\<rparr>\<rparr>"
  have "listening_iter w l = Done Continue (?w6\<lparr>tasks := tasks ?w6 @ [TRead ?c, TWrite ?c]\<rparr>)"
    using ls ac nf sa emit_can_send [OF cs]
    by (simp add: listening_iter_def new_id_def Let_def)
  then show ?thesis
    using e4 n4 c4 l4 t4 by (intro exI [of _ "?w6\<lparr>tasks := tasks ?w6 @ [TRead ?c, TWrite ?c]\<rparr>"] exI [of _ q]) simp
qed

section \<open>Facts about the ids\<close>

lemma id_of_frame [simp]:
  "id_of (w\<lparr>net := n\<rparr>) = id_of w"
  "id_of (w\<lparr>arrays := ar\<rparr>) = id_of w"
  "id_of (w\<lparr>tasks := ts\<rparr>) = id_of w"
  "id_of (w\<lparr>next_ptr := np\<rparr>) = id_of w"
  by (simp_all add: id_of_def fun_eq_iff split: option.splits)

lemma id_of_upd_listener:
  "listeners w l = Some ls \<Longrightarrow> l_id ls' = l_id ls \<Longrightarrow>
     id_of (w\<lparr>listeners := (listeners w)(l \<mapsto> ls')\<rparr>) = id_of w"
  by (auto simp: id_of_def fun_eq_iff split: option.splits)

lemma same_ids_refl [simp]: "same_ids w w"
  by (simp add: same_ids_def)

lemma append_slice_ids:
  "append_slice w s ys = (q, w') \<Longrightarrow>
     conns w' = conns w \<and> listeners w' = listeners w \<and> net w' = net w \<and> tasks w' = tasks w \<and>
     id_of w' = id_of w \<and> next_ptr w \<le> next_ptr w'"
  by (auto simp: append_slice_def Let_def split: if_splits option.splits)

lemma Listen_ids:
  assumes "heap_ok w"
  shows "same_ids w (world_of (Listen w r p)) \<or> one_new_id w (world_of (Listen w r p))"
proof (cases r)
  case (Inl e)
  then show ?thesis by (simp add: Listen_def)
next
  case (Inr lsk)
  let ?l = "next_ptr w"
  let ?ls = "\<lparr>l_id = nextid (net w) + 1, l_status = StatusListenning, l_listen = lsk,
              l_conns = nil_slice, l_proto = p\<rparr>"
  let ?w2 = "w\<lparr>net := (net w)\<lparr>nextid := nextid (net w) + 1\<rparr>,
               listeners := (listeners w)(?l \<mapsto> ?ls), next_ptr := Suc ?l\<rparr>"
  obtain q w3 where ap: "append_slice ?w2 (connServer (net ?w2)) [?l] = (q, w3)"
    by (cases "append_slice ?w2 (connServer (net ?w2)) [?l]")
  from assms have cn: "conns w ?l = None"
    by (auto simp: heap_ok_def id_of_def split: option.splits dest: spec [of _ "next_ptr w"])
  have i2: "id_of ?w2 = (id_of w)(?l := Some (nextid (net w) + 1))"
    using cn by (simp add: id_of_def fun_eq_iff split: option.splits)
  from append_slice_ids [OF ap] i2
  have "one_new_id w (world_of (Listen w r p))"
    using Inr ap by (simp add: Listen_def new_id_def syncAddListen_def Let_def one_new_id_def)
  then show ?thesis ..
qed

lemma Connect_ids:
  "same_ids w (world_of (Connect w r p)) \<or> one_new_id w (world_of (Connect w r p))"
proof (cases r)
  case (Inl e)
  then show ?thesis by (simp add: Connect_def)
next
  case (Inr x)
  obtain sk la ra where x: "x = (sk, la, ra)" by (cases x)
  let ?c = "next_ptr w"
  let ?cn = "new_conn None (nextid (net w) + 1) sk la ra p (now w)"
  let ?w2 = "w\<lparr>net := (net w)\<lparr>nextid := nextid (net w) + 1\<rparr>,
               conns := (conns w)(?c \<mapsto> ?cn), next_ptr := Suc ?c\<rparr>"
  obtain q w3 where ap: "append_slice ?w2 (connClient (net ?w2)) [?c] = (q, w3)"
    by (cases "append_slice ?w2 (connClient (net ?w2)) [?c]")
  have i2: "id_of ?w2 = (id_of w)(?c := Some (nextid (net w) + 1))"
    by (simp add: id_of_def fun_eq_iff new_conn_def split: option.splits)
  from append_slice_ids [OF ap] i2
  have "one_new_id w (world_of (Connect w r p))"
    using Inr x ap
    by (simp add: Connect_def new_id_def syncAddClient_def Let_def one_new_id_def new_conn_def)
  then show ?thesis ..
qed

lemma one_new_id_emit:
  assumes "one_new_id w w5"
  shows "one_new_id w (world_of (bind_res (emit w5 ev) (\<lambda>_ w6. Done x (w6\<lparr>tasks := f w6\<rparr>))))"
proof (cases "chan_send (events (net w5)) ev")
  case (Sent ch)
  with assms show ?thesis by (simp add: emit_def one_new_id_def)
next
  case SendPanic
  with assms show ?thesis by (simp add: emit_def)
next
  case SendBlocks
  with assms show ?thesis by (simp add: emit_def)
qed

lemma listening_iter_ids:
  "same_ids w (world_of (listening_iter w l)) \<or> one_new_id w (world_of (listening_iter w l))"
proof (cases "listeners w l")
  case None
  then show ?thesis by (simp add: listening_iter_def)
next
  case (Some ls)
  show ?thesis
  proof (cases "sock_accept (l_listen ls)")
    case None
    with Some show ?thesis by (simp add: listening_iter_def)
  next
    case ac: (Some a)
    obtain r lsk where a: "a = (r, lsk)" by (cases a)
    let ?w1 = "w\<lparr>listeners := (listeners w)(l \<mapsto> ls\<lparr>l_listen := lsk\<rparr>)\<rparr>"
    have i1: "id_of ?w1 = id_of w"
      by (rule id_of_upd_listener [OF Some]) simp
    show ?thesis
    proof (cases r)
      case (Inl e)
      with Some ac a i1 have "same_ids w (world_of (listening_iter w l))"
        by (simp add: listening_iter_def same_ids_def Let_def)
      then show ?thesis ..
    next
      case (Inr x)
      obtain sk la ra where x: "x = (sk, la, ra)" by (cases x)
      let ?c = "next_ptr w"
      let ?i = "nextid (net w) + 1"
      let ?cn = "new_conn (Some l) ?i sk la ra (l_proto ls) (now w)"
      let ?w3 = "?w1\<lparr>net := (net w)\<lparr>nextid := ?i\<rparr>, conns := (conns w)(?c \<mapsto> ?cn),
                     next_ptr := Suc ?c\<rparr>"
      have i3: "id_of ?w3 = (id_of w)(?c := Some ?i)"
        using Some by (auto simp: id_of_def fun_eq_iff new_conn_def split: option.splits)
      have n3: "one_new_id w ?w3" using i3 by (simp add: one_new_id_def)
      show ?thesis
      proof (cases "case l_proto ls of None \<Rightarrow> False | Some p \<Rightarrow> \<not> FilterAccept p ?i la ra")
        case True
        with Some ac a Inr x have "world_of (listening_iter w l) = ?w3"
          by (simp add: listening_iter_def new_id_def Let_def)
        with n3 show ?thesis by simp
      next
        case False
        obtain q w4 where ap: "append_slice ?w3 (l_conns ls) [?c] = (q, w4)"
          by (cases "append_slice ?w3 (l_conns ls) [?c]")
        let ?w5 = "w4\<lparr>listeners := (listeners w4)(l \<mapsto> ls\<lparr>l_listen := lsk\<rparr>\<lparr>l_conns := q\<rparr>)\<rparr>"
        have sa: "syncAddClient ?w3 ?c = Done () ?w5"
          using ap by (simp add: syncAddClient_def new_conn_def)
        from append_slice_ids [OF ap] have l4: "listeners w4 l = Some (ls\<lparr>l_listen := lsk\<rparr>)"
          and i4: "id_of w4 = id_of ?w3" and n4: "net w4 = net ?w3" and p4: "next_ptr ?w3 \<le> next_ptr w4"
          by simp_all
        have i5: "id_of ?w5 = id_of w4" by (rule id_of_upd_listener [OF l4]) simp
        have n5: "one_new_id w ?w5" using i5 i4 i3 n4 p4 by (simp add: one_new_id_def)
        let ?ev = "\<lparr>EventType = EventNewConnection, Conn = Some ?c, Data = Nil\<rparr>"
        have li: "listening_iter w l =
                    bind_res (emit ?w5 ?ev)
                      (\<lambda>_ w6. Done Continue (w6\<lparr>tasks := tasks w6 @ [TRead ?c, TWrite ?c]\<rparr>))"
          using Some ac a Inr x False sa by (simp add: listening_iter_def new_id_def Let_def)
        have "one_new_id w (world_of (listening_iter w l))"
          unfolding li using n5 by (rule one_new_id_emit)
        then show ?thesis ..
      qed
    qed
  qed
qed

lemma step_ids:
  "heap_ok w \<Longrightarrow> same_ids w (step w x) \<or> one_new_id w (step w x)"
  by (cases x) (simp_all add: Listen_ids Connect_ids listening_iter_ids)

lemma map_filter_None: "(\<And>x. x \<in> set xs \<Longrightarrow> f x = None) \<Longrightarrow> List.map_filter f xs = []"
  by (induction xs) simp_all

lemma heap_okD: "heap_ok w \<Longrightarrow> next_ptr w \<le> a \<Longrightarrow> id_of w a = None"
  unfolding heap_ok_def by (meson not_le)

lemma heap_okI: "(\<And>a. next_ptr w \<le> a \<Longrightarrow> id_of w a = None) \<Longrightarrow> heap_ok w"
  unfolding heap_ok_def by (meson not_le)

lemma same_ids_new:
  assumes "heap_ok w" and "same_ids w w'"
  shows "new_ids w w' = [] \<and> heap_ok w' \<and> nextid (net w') = nextid (net w)"
proof -
  from assms have n: "\<And>a. next_ptr w \<le> a \<Longrightarrow> id_of w' a = None"
    by (simp add: same_ids_def heap_okD)
  then have "new_ids w w' = []"
    unfolding new_ids_def by (intro map_filter_None) simp
  moreover have "heap_ok w'"
  proof (rule heap_okI)
    fix a assume "next_ptr w' \<le> a"
    with assms have "next_ptr w \<le> a" by (simp add: same_ids_def)
    then show "id_of w' a = None" by (rule n)
  qed
  ultimately show ?thesis using assms by (simp add: same_ids_def)
qed

lemma one_new_id_new:
  assumes "heap_ok w" and "one_new_id w w'"
  shows "new_ids w w' = [nextid (net w) + 1] \<and> heap_ok w' \<and> nextid (net w') = nextid (net w) + 1"
proof -
  from assms have lt: "next_ptr w < next_ptr w'"
    and i: "id_of w' = (id_of w)(next_ptr w := Some (nextid (net w) + 1))"
    by (simp_all add: one_new_id_def)
  from assms have n: "\<And>a. next_ptr w \<le> a \<Longrightarrow> id_of w a = None"
    by (simp add: heap_okD)
  have "[next_ptr w..<next_ptr w'] = next_ptr w # [Suc (next_ptr w)..<next_ptr w']"
    using lt by (simp add: upt_conv_Cons)
  moreover have "List.map_filter (id_of w') [Suc (next_ptr w)..<next_ptr w'] = []"
    by (intro map_filter_None) (simp add: i n)
  ultimately have "new_ids w w' = [nextid (net w) + 1]"
    by (simp add: new_ids_def i)
  moreover have "heap_ok w'"
  proof (rule heap_okI)
    fix a assume "next_ptr w' \<le> a"
    with lt have "next_ptr w \<le> a" and "a \<noteq> next_ptr w" by simp_all
    then show "id_of w' a = None" by (simp add: i n)
  qed
  ultimately show ?thesis using assms by (simp add: one_new_id_def)
qed

lemma sint_succ:
  fixes x :: int64
  assumes "sint x + 1 < 2 ^ 63"
  shows "sint (x + 1) = sint x + 1"
proof -
  have "- (2 ^ 63) \<le> sint x" using sint_ge [of x] by simp
  with assms show ?thesis
    by (simp add: sint_word_ariths signed_take_bit_int_eq_self)
qed

lemma run_ids_bounds:
  assumes "heap_ok w" and "sint (nextid (net w)) + int (length (run_ids w ops)) < 2 ^ 63"
  shows "sorted_wrt (<) (map sint (run_ids w ops)) \<and>
         (\<forall>i \<in> set (run_ids w ops). sint (nextid (net w)) < sint i)"
  using assms
proof (induction ops arbitrary: w)
  case Nil
  then show ?case by simp
next
  case (Cons x xs)
  let ?w' = "step w x"
  from step_ids [OF Cons.prems(1), of x] show ?case
  proof
    assume "same_ids w ?w'"
    from same_ids_new [OF Cons.prems(1) this] have e: "new_ids w ?w' = []" and h: "heap_ok ?w'"
      and n: "nextid (net ?w') = nextid (net w)" by simp_all
    from Cons.prems(2) e n have b: "sint (nextid (net ?w')) + int (length (run_ids ?w' xs)) < 2 ^ 63"
      by simp
    from Cons.IH [OF h b] e n show ?thesis by auto
  next
    assume "one_new_id w ?w'"
    from one_new_id_new [OF Cons.prems(1) this] have e: "new_ids w ?w' = [nextid (net w) + 1]"
      and h: "heap_ok ?w'" and n: "nextid (net ?w') = nextid (net w) + 1" by simp_all
    from Cons.prems(2) e have "sint (nextid (net w)) + 1 < 2 ^ 63" by simp
    then have s: "sint (nextid (net w) + 1) = sint (nextid (net w)) + 1" by (rule sint_succ)
    from Cons.prems(2) e n s have b: "sint (nextid (net ?w')) + int (length (run_ids ?w' xs)) < 2 ^ 63"
      by simp
    from Cons.IH [OF h b] e n s show ?thesis by auto
  qed
qed

lemma Connect_new: "one_new_id w (world_of (Connect w (Inr x) p))"
proof -
  obtain sk la ra where x: "x = (sk, la, ra)" by (cases x)
  let ?c = "next_ptr w"
  let ?cn = "new_conn None (nextid (net w) + 1) sk la ra p (now w)"
  let ?w2 = "w\<lparr>net := (net w)\<lparr>nextid := nextid (net w) + 1\<rparr>,
               conns := (conns w)(?c \<mapsto> ?cn), next_ptr := Suc ?c\<rparr>"
  obtain q w3 where ap: "append_slice ?w2 (connClient (net ?w2)) [?c] = (q, w3)"
    by (cases "append_slice ?w2 (connClient (net ?w2)) [?c]")
  have i2: "id_of ?w2 = (id_of w)(?c := Some (nextid (net w) + 1))"
    by (simp add: id_of_def fun_eq_iff new_conn_def split: option.splits)
  from append_slice_ids [OF ap] i2 show ?thesis
    using x ap
    by (simp add: Connect_def new_id_def syncAddClient_def Let_def one_new_id_def new_conn_def)
qed

lemma run_ids_connects:
  "heap_ok w \<Longrightarrow>
     run_ids w (replicate n (OpConnect (Inr x) p)) =
       map (\<lambda>j. nextid (net w) + of_nat j) [1..<Suc n]"
proof (induction n arbitrary: w)
  case 0
  then show ?case by simp
next
  case (Suc n)
  let ?w' = "step w (OpConnect (Inr x) p)"
  have "one_new_id w ?w'" by (simp add: Connect_new)
  from one_new_id_new [OF Suc.prems this] have e: "new_ids w ?w' = [nextid (net w) + 1]"
    and h: "heap_ok ?w'" and n: "nextid (net ?w') = nextid (net w) + 1" by simp_all
  have "[1..<Suc (Suc n)] = 1 # map Suc [1..<Suc n]"
    by (simp add: map_Suc_upt upt_conv_Cons del: upt_Suc)
  then have "map (\<lambda>j. nextid (net w) + of_nat j) [1..<Suc (Suc n)] =
          (nextid (net w) + 1) # map (\<lambda>j. nextid (net w) + 1 + of_nat j) [1..<Suc n]"
    by (simp add: comp_def add.assoc del: upt_Suc)
  with Suc.IH [OF h] e n show ?case
    by (simp del: upt_Suc)
qed

lemma heap_ok_new_world: "heap_ok new_world"
  by (simp add: heap_ok_def new_world_def id_of_def)

lemma run_ids_ops3: "run_ids new_world ops3 = [1, 2, 3]"
  by code_simp

section \<open>The claims\<close>

lemmas run_defs = checkConnErr_def syncDelClient_def del_at_def append_slice_def elems_def
  chan_close_def chan_send_def chan_recv_def sock_close_def sock_read_def sock_write_def
  emit_def registry_def registry_ok_def slice_ok_def can_send_def headlen_of_def io_event_def

subsection \<open>C1: \<open>CloseListen\<close> and the connections of the listener\<close>

text \<open>
  C1 says that \<open>CloseListen\<close> closes every connection registered with the listener and
  leaves its sub-registry empty. The loop of \<open>CloseListen\<close> ranges over
  \<open>listen.conns\<close> while \<open>CloseConn\<close>, through \<open>syncDelClient\<close>, shifts the cells
  of the same array one down: after the first connection is removed, the cell the loop
  reads next holds the third connection, and the second is never visited. On the
  listener at address 5 with the three connected connections 10, 11 and 12, the call
  returns with 10 and 12 broken, and with 11 still connected and still registered.
\<close>

theorem CloseListen_skips_a_connection:
  "(case CloseListen server3 5 of
      Done _ w \<Rightarrow> Some (map (\<lambda>c. map_option c_status (conns w c)) [10, 11, 12], registry w 11)
    | _ \<Rightarrow> None) =
   Some ([Some StatusBroken, Some StatusConnected, Some StatusBroken], [11])"
  by (simp add: numeral_3_eq_3 CloseListen_def ex_defs CloseConn_def syncDelClient_def
        del_at_def append_slice_def elems_def arr_get_def chan_close_def sock_close_def
        registry_def)

text \<open>
  The same on a new engine: after \<open>Listen\<close> and three accepts the listener is at
  address 1, its connections are at 3, 5 and 7 and its sub-registry is the array
  \<open>[3, 5, 7, 0]\<close> of capacity 4; \<open>CloseListen\<close> leaves connection 5 connected and
  registered.
\<close>

lemma CloseListen_after_three_accepts:
  "(case CloseListen (foldl step new_world serve3) 1 of
      Done _ w \<Rightarrow> Some (map (\<lambda>c. map_option c_status (conns w c)) [3, 5, 7], registry w 5)
    | _ \<Rightarrow> None) =
   Some ([Some StatusBroken, Some StatusConnected, Some StatusBroken], [5])"
  by code_simp

subsection \<open>C2: short reads in framed mode\<close>

text \<open>
  C2 says that a framed iteration reads exactly \<open>HeadLen()\<close> bytes before \<open>BodyLen\<close>
  and exactly the body length before \<open>Parse\<close>, and that a short read ends the task as
  an I/O error. \<open>handleRead\<close> calls \<open>conn.conn.Read\<close> once for the header and once
  for the body, and \<open>checkConnErr\<close> ignores the count it is given: a \<open>Read\<close> that
  returns fewer bytes with a \<open>nil\<close> error passes, and the decoder gets the buffer with
  the missing bytes still zero. With the example protocol (header of 2 bytes), when only
  the tag byte 5 has arrived, \<open>BodyLen\<close> is called on \<open>[5, 0]\<close>, the task queues the
  message \<open>[5]\<close> as connection data and waits for the next header; the connection is
  still connected.
\<close>

theorem handleRead_short_header:
  "(case handleRead (feed (with_proto server3 11 len_proto) 11 [RData [5]]) 11 of
      Blocked w \<Rightarrow> Some (map_option c_status (conns w 11), ch_buf (events (net w)))
    | _ \<Rightarrow> None) =
   Some (Some StatusConnected,
         [\<lparr>EventType = EventNewConnectionData, Conn = Some 11, Data = Bytes [5]\<rparr>])"
  by (simp add: handleRead.simps read_iter_def read_frame_def conn_read_def touch_def
        run_defs ex_defs ex2_defs)

subsection \<open>C3: \<open>SimpleNetDestroy\<close>\<close>

text \<open>
  C3 says that \<open>SimpleNetDestroy\<close> closes the event queue, every client connection and
  every listener, and sets the destroyed flag. Its loop over \<open>n.connClient\<close> has the
  defect of the loop of \<open>CloseListen\<close>: on an engine with the three client connections
  10, 11 and 12 the queue is closed and the flag is set, but connection 11 is still
  connected and still in the client registry.
\<close>

theorem SimpleNetDestroy_skips_a_connection:
  "(case SimpleNetDestroy clients3 of
      Done _ w \<Rightarrow>
        Some (map (\<lambda>c. map_option c_status (conns w c)) [10, 11, 12], registry w 11,
              destroy (net w), ch_closed (events (net w)))
    | _ \<Rightarrow> None) =
   Some ([Some StatusBroken, Some StatusConnected, Some StatusBroken], [11], True, True)"
  by (simp add: numeral_3_eq_3 SimpleNetDestroy_def ex_defs CloseConn_def syncDelClient_def
        del_at_def append_slice_def elems_def arr_get_def chan_close_def sock_close_def
        registry_def)

text \<open>
  The same on a new engine, after three successful \<open>Connect\<close> calls (connections at
  1, 3 and 5): \<open>SimpleNetDestroy\<close> leaves connection 3 connected and registered.
\<close>

lemma SimpleNetDestroy_after_three_connects:
  "(case SimpleNetDestroy (foldl step new_world dial3) of
      Done _ w \<Rightarrow>
        Some (map (\<lambda>c. map_option c_status (conns w c)) [1, 3, 5], registry w 3,
              destroy (net w), ch_closed (events (net w)))
    | _ \<Rightarrow> None) =
   Some ([Some StatusBroken, Some StatusConnected, Some StatusBroken], [3], True, True)"
  by code_simp

subsection \<open>C4: the shared error handler\<close>




subsection \<open>C5: \<open>PollEvent\<close>\<close>

text \<open>
  C5, as amended. \<open>PollEvent\<close> is one \<open>select\<close> between the event queue and the timer;
  \<open>t\<close> says that the timer had fired when the \<open>select\<close> ran and that the \<open>select\<close>
  took it. Then \<open>PollEvent\<close> returns a \<open>EventTimeout\<close> event with no connection and
  leaves the world as it was, whatever the queue holds. Otherwise the \<open>select\<close> takes
  the queue: when the queue holds an event, closed or not, \<open>PollEvent\<close> returns the
  first event and takes it off the queue; when the queue is empty and open, it returns
  a \<open>EventTimeout\<close> event with no connection and leaves the world as it was (the event
  was never on the queue); when the queue is closed and empty, it returns the error
  \<open>SimpleNet destroyed\<close>.
\<close>

theorem PollEvent_cases:
  "(t \<longrightarrow> PollEvent w t = Done (Inr \<lparr>EventType = EventTimeout, Conn = None, Data = Nil\<rparr>) w) \<and>
   (\<not> t \<and> ch_buf (events (net w)) = ev # evs \<longrightarrow>
      PollEvent w t =
        Done (Inr ev) (w\<lparr>net := (net w)\<lparr>events := (events (net w))\<lparr>ch_buf := evs\<rparr>\<rparr>\<rparr>)) \<and>
   (ch_buf (events (net w)) = [] \<and> \<not> ch_closed (events (net w)) \<longrightarrow>
      PollEvent w t = Done (Inr \<lparr>EventType = EventTimeout, Conn = None, Data = Nil\<rparr>) w) \<and>
   (\<not> t \<and> ch_buf (events (net w)) = [] \<and> ch_closed (events (net w)) \<longrightarrow>
      PollEvent w t = Done (Inl (Err ''SimpleNet destroyed'')) w)"
  by (cases "ch_buf (events (net w))") (simp_all add: PollEvent_def chan_recv_def)

text \<open>
  The cases on the engine with three clients: one event queued, nothing queued, a
  closed and empty queue, and the timer taken with one event queued and with a closed
  and empty queue.
\<close>

theorem PollEvent_cases_witness:
  "polled (PollEvent (pending clients3 [ev10]) False) = Some (Inr ev10, []) \<and>
   polled (PollEvent clients3 False) =
     Some (Inr \<lparr>EventType = EventTimeout, Conn = None, Data = Nil\<rparr>, []) \<and>
   polled (PollEvent (world_of (destroying clients3 0)) False) =
     Some (Inl (Err ''SimpleNet destroyed''), []) \<and>
   polled (PollEvent (pending clients3 [ev10]) True) =
     Some (Inr \<lparr>EventType = EventTimeout, Conn = None, Data = Nil\<rparr>, [ev10]) \<and>
   polled (PollEvent (world_of (destroying clients3 0)) True) =
     Some (Inr \<lparr>EventType = EventTimeout, Conn = None, Data = Nil\<rparr>, [])"
  using PollEvent_cases [of False "pending clients3 [ev10]" ev10 "[]"]
    PollEvent_cases [of False clients3]
    PollEvent_cases [of False "world_of (destroying clients3 0)"]
    PollEvent_cases [of True "pending clients3 [ev10]"]
    PollEvent_cases [of True "world_of (destroying clients3 0)"]
  by (simp add: polled_def pending_def destroying_def chan_close_def ex_defs)

text \<open>
  C5 as stated fails: it says that \<open>PollEvent\<close> returns an error once \<open>Destroy\<close> has
  closed the queue. A receive on a closed channel first drains what the channel still
  holds. With one event queued when \<open>SimpleNetDestroy\<close> runs, the queue is closed and
  the engine destroyed, and \<open>PollEvent\<close> still returns that event, not an error.
\<close>

theorem PollEvent_closed_queue_still_delivers:
  "(case SimpleNetDestroy (pending clients3 [ev10]) of
      Done _ w \<Rightarrow> Some (ch_closed (events (net w)), destroy (net w), polled (PollEvent w False))
    | _ \<Rightarrow> None) =
   Some (True, True, Some (Inr ev10, []))"
  by (simp add: numeral_3_eq_3 SimpleNetDestroy_def pending_def polled_def PollEvent_def
        ex_defs CloseConn_def syncDelClient_def del_at_def append_slice_def elems_def
        arr_get_def chan_close_def chan_recv_def sock_close_def)

subsection \<open>C6: \<open>SendData\<close>\<close>

text \<open>
  C6: on a connection that is not connected, \<open>SendData\<close> returns the error
  \<open>not connected connection\<close> and the world is as it was, so no mailbox has changed.
  On a connected connection with no protocol it returns \<open>unexpect data type\<close>, again
  with nothing changed, when the payload is not a byte slice, and queues a byte slice
  on the connection's mailbox. With a protocol, an error of \<open>Serialize\<close> is returned
  with nothing changed, and otherwise the serialized bytes are queued on the
  connection's mailbox (an open mailbox with room: a full one blocks the call).
\<close>

theorem SendData_cases:
  assumes cn: "conns w c = Some cn"
  shows "(c_status cn \<noteq> StatusConnected \<longrightarrow>
            SendData w c d = Done (Some (Err ''not connected connection'')) w) \<and>
         (c_status cn = StatusConnected \<and> c_proto cn = None \<and> \<not> is_bytes d \<longrightarrow>
            SendData w c d = Done (Some (Err ''unexpect data type'')) w) \<and>
         (c_status cn = StatusConnected \<and> c_proto cn = None \<and> d = Bytes msg \<and>
          can_send (c_msgChan cn) \<longrightarrow>
            SendData w c d =
              Done None (w\<lparr>conns := (conns w)(c \<mapsto>
                 cn\<lparr>c_msgChan := (c_msgChan cn)\<lparr>ch_buf := ch_buf (c_msgChan cn) @ [msg]\<rparr>\<rparr>)\<rparr>)) \<and>
         (c_status cn = StatusConnected \<and> c_proto cn = Some p \<and> Serialize p d = Inl e \<longrightarrow>
            SendData w c d = Done (Some e) w) \<and>
         (c_status cn = StatusConnected \<and> c_proto cn = Some p \<and> Serialize p d = Inr msg \<and>
          can_send (c_msgChan cn) \<longrightarrow>
            SendData w c d =
              Done None (w\<lparr>conns := (conns w)(c \<mapsto>
                 cn\<lparr>c_msgChan := (c_msgChan cn)\<lparr>ch_buf := ch_buf (c_msgChan cn) @ [msg]\<rparr>\<rparr>)\<rparr>))"
  using cn by (cases d) (simp_all add: SendData_def is_bytes_def post_can_send)

text \<open>The five cases on connection 11 of the example listener.\<close>

theorem SendData_cases_witness:
  "mailbox (SendData (with_status server3 11 StatusBroken) 11 (Bytes [7])) 11 =
     Some (Some (Err ''not connected connection''), []) \<and>
   mailbox (SendData server3 11 (Other ''ping'')) 11 = Some (Some (Err ''unexpect data type''), []) \<and>
   mailbox (SendData server3 11 (Bytes [7, 8])) 11 = Some (None, [[7, 8]]) \<and>
   mailbox (SendData (with_proto server3 11 len_proto) 11 (Other ''ping'')) 11 =
     Some (Some (Err ''not a message''), []) \<and>
   mailbox (SendData (with_proto server3 11 len_proto) 11 (Bytes [7, 8])) 11 =
     Some (None, [[7, 1, 8]])"
proof -
  let ?cn = "ex_conn (Some 5) 3"
  have c1: "conns (with_status server3 11 StatusBroken) 11 = Some (?cn\<lparr>c_status := StatusBroken\<rparr>)"
    by (simp add: ex_defs ex2_defs)
  have c2: "conns server3 11 = Some ?cn" by (simp add: ex_defs)
  have c3: "conns (with_proto server3 11 len_proto) 11 = Some (?cn\<lparr>c_proto := Some len_proto\<rparr>)"
    by (simp add: ex_defs ex2_defs)
  have "mailbox (SendData (with_status server3 11 StatusBroken) 11 (Bytes [7])) 11 =
     Some (Some (Err ''not connected connection''), [])"
    using SendData_cases [OF c1, where d = "Bytes [7]"]
    by (simp add: mailbox_def ex_defs ex2_defs)
  moreover have "mailbox (SendData server3 11 (Other ''ping'')) 11 =
     Some (Some (Err ''unexpect data type''), [])"
    using SendData_cases [OF c2, where d = "Other ''ping''"]
    by (simp add: mailbox_def ex_defs is_bytes_def)
  moreover have "mailbox (SendData server3 11 (Bytes [7, 8])) 11 = Some (None, [[7, 8]])"
    using SendData_cases [OF c2, where d = "Bytes [7, 8]" and msg = "[7, 8]"]
    by (simp add: mailbox_def ex_defs can_send_def)
  moreover have "mailbox (SendData (with_proto server3 11 len_proto) 11 (Other ''ping'')) 11 =
     Some (Some (Err ''not a message''), [])"
    using SendData_cases [OF c3, where d = "Other ''ping''" and p = len_proto
            and e = "Err ''not a message''"]
    by (simp add: mailbox_def ex_defs ex2_defs)
  moreover have "mailbox (SendData (with_proto server3 11 len_proto) 11 (Bytes [7, 8])) 11 =
     Some (None, [[7, 1, 8]])"
    using SendData_cases [OF c3, where d = "Bytes [7, 8]" and p = len_proto and msg = "[7, 1, 8]"]
    by (simp add: mailbox_def ex_defs ex2_defs can_send_def)
  ultimately show ?thesis by blast
qed

subsection \<open>C7: decode errors in framed mode\<close>




subsection \<open>C8: the ids of listeners and connections\<close>

text \<open>
  C8, as amended: in a run of \<open>Listen\<close>, \<open>Connect\<close> and accept steps of one engine
  in which the counter \<open>nextid\<close>, an \<open>int64\<close>, does not pass its largest value (for a
  new engine: fewer than \<open>2^63\<close> objects are created), the ids assigned are strictly
  increasing in the order of creation, and pairwise distinct. The run may start in
  any world whose allocator is beyond every object, as in a new engine.
\<close>

theorem ids_strictly_increasing:
  assumes "heap_ok w" and "sint (nextid (net w)) + int (length (run_ids w ops)) < 2 ^ 63"
  shows "sorted_wrt (\<lambda>a b. sint a < sint b) (run_ids w ops) \<and> distinct (run_ids w ops)"
proof -
  from run_ids_bounds [OF assms] have s: "sorted_wrt (<) (map sint (run_ids w ops))" by simp
  then have "distinct (map sint (run_ids w ops))"
    using strict_sorted_iff by blast
  then have "distinct (run_ids w ops)" by (simp add: distinct_map)
  with s show ?thesis by (simp add: sorted_wrt_map)
qed

text \<open>A new engine, a run of four steps, three objects: ids 1, 2 and 3.\<close>

theorem ids_strictly_increasing_witness:
  "run_ids new_world ops3 = [1, 2, 3] \<and>
   sorted_wrt (\<lambda>a b. sint a < sint b) (run_ids new_world ops3) \<and> distinct (run_ids new_world ops3)"
proof -
  have n0: "nextid (net new_world) = 0" by (simp add: new_world_def NewSimpleNet_def)
  have b: "sint (nextid (net new_world)) + int (length (run_ids new_world ops3)) < 2 ^ 63"
    by (simp only: run_ids_ops3 n0) simp
  from ids_strictly_increasing [OF heap_ok_new_world b] run_ids_ops3 show ?thesis by simp
qed

text \<open>
  C8 as stated, for every sequence, fails: \<open>atomic.AddInt64\<close> wraps around. On a new
  engine the \<open>2^63\<close>-th successful \<open>Connect\<close> is given the id \<open>-2^63\<close>, below
  the id \<open>2^63 - 1\<close> of the connection before it.
\<close>

theorem ids_wrap_around:
  "\<not> sorted_wrt (\<lambda>a b. sint a < sint b)
       (run_ids new_world
          (replicate 9223372036854775808 (OpConnect (Inr (ex_sock, ''10.0.0.1:5000'', ''10.0.0.2:80'')) None)))"
proof
  let ?xs = "run_ids new_world
          (replicate 9223372036854775808 (OpConnect (Inr (ex_sock, ''10.0.0.1:5000'', ''10.0.0.2:80'')) None))"
  assume s: "sorted_wrt (\<lambda>a b. sint a < sint b) ?xs"
  have xs: "?xs = map (\<lambda>j. nextid (net new_world) + of_nat j) [1..<Suc 9223372036854775808]"
    by (rule run_ids_connects [OF heap_ok_new_world])
  have n0: "nextid (net new_world) = 0" by (simp add: new_world_def NewSimpleNet_def)
  have l: "length ?xs = 9223372036854775808" by (simp only: xs length_map length_upt)
  have a: "?xs ! 9223372036854775806 = (9223372036854775807 :: int64)"
    by (simp only: xs n0) (simp del: upt_Suc)
  have b: "?xs ! 9223372036854775807 = (9223372036854775808 :: int64)"
    by (simp only: xs n0) (simp del: upt_Suc)
  from sorted_wrt_nth_less [OF s, of 9223372036854775806 9223372036854775807] l
  have "sint (?xs ! 9223372036854775806) < sint (?xs ! 9223372036854775807)" by simp
  then show False unfolding a b by simp
qed

subsection \<open>C9: the accept filter\<close>

text \<open>
  C9: when the accept loop of a listener has accepted a connection and the listener's
  protocol refuses it (\<open>FilterAccept\<close> is false), the iteration goes on to the next
  accept with every array and every registry slice as before, the event queue as
  before and no task started: only the listener's socket has moved on (and a
  \<open>Connection\<close> object and an id were spent). When the listener has no protocol, or
  \<open>FilterAccept\<close> is true, the connection is appended to the listener's sub-registry,
  one \<open>EventNewConnection\<close> event for it is queued, and its read and write tasks are
  started, in this order (the sub-registry well formed, the queue open and not full).
\<close>

theorem listening_iter_accept:
  assumes ls: "listeners w l = Some ls"
    and ac: "sock_accept (l_listen ls) = Some (Inr (sk, la, ra), lsk)"
  shows "((\<exists>p. l_proto ls = Some p \<and> \<not> FilterAccept p (nextid (net w) + 1) la ra) \<longrightarrow>
            (\<exists>w'. listening_iter w l = Done Continue w' \<and>
                  arrays w' = arrays w \<and> connClient (net w') = connClient (net w) \<and>
                  listeners w' = (listeners w)(l \<mapsto> ls\<lparr>l_listen := lsk\<rparr>) \<and>
                  events (net w') = events (net w) \<and> tasks w' = tasks w)) \<and>
         ((l_proto ls = None \<or> (\<exists>p. l_proto ls = Some p \<and> FilterAccept p (nextid (net w) + 1) la ra)) \<and>
          slice_ok w (l_conns ls) \<and> can_send (events (net w)) \<longrightarrow>
            (\<exists>w' q. listening_iter w l = Done Continue w' \<and>
                  listeners w' l = Some (ls\<lparr>l_listen := lsk, l_conns := q\<rparr>) \<and>
                  elems w' q = elems w (l_conns ls) @ [next_ptr w] \<and>
                  conns w' = (conns w)(next_ptr w \<mapsto>
                     new_conn (Some l) (nextid (net w) + 1) sk la ra (l_proto ls) (now w)) \<and>
                  ch_buf (events (net w')) = ch_buf (events (net w)) @
                     [\<lparr>EventType = EventNewConnection, Conn = Some (next_ptr w), Data = Nil\<rparr>] \<and>
                  tasks w' = tasks w @ [TRead (next_ptr w), TWrite (next_ptr w)]))"
proof (intro conjI impI)
  assume "\<exists>p. l_proto ls = Some p \<and> \<not> FilterAccept p (nextid (net w) + 1) la ra"
  then obtain p where p: "l_proto ls = Some p" and f: "\<not> FilterAccept p (nextid (net w) + 1) la ra"
    by blast
  from listening_iter_dropped [OF ls ac p f] ls
  show "\<exists>w'. listening_iter w l = Done Continue w' \<and>
                  arrays w' = arrays w \<and> connClient (net w') = connClient (net w) \<and>
                  listeners w' = (listeners w)(l \<mapsto> ls\<lparr>l_listen := lsk\<rparr>) \<and>
                  events (net w') = events (net w) \<and> tasks w' = tasks w"
    by simp
next
  assume a: "(l_proto ls = None \<or> (\<exists>p. l_proto ls = Some p \<and> FilterAccept p (nextid (net w) + 1) la ra)) \<and>
          slice_ok w (l_conns ls) \<and> can_send (events (net w))"
  then show "\<exists>w' q. listening_iter w l = Done Continue w' \<and>
                  listeners w' l = Some (ls\<lparr>l_listen := lsk, l_conns := q\<rparr>) \<and>
                  elems w' q = elems w (l_conns ls) @ [next_ptr w] \<and>
                  conns w' = (conns w)(next_ptr w \<mapsto>
                     new_conn (Some l) (nextid (net w) + 1) sk la ra (l_proto ls) (now w)) \<and>
                  ch_buf (events (net w')) = ch_buf (events (net w)) @
                     [\<lparr>EventType = EventNewConnection, Conn = Some (next_ptr w), Data = Nil\<rparr>] \<and>
                  tasks w' = tasks w @ [TRead (next_ptr w), TWrite (next_ptr w)]"
    by (intro listening_iter_registered [OF ls ac]) simp_all
qed

text \<open>
  The example listener with the example protocol, which refuses the peer
  \<open>10.0.0.66:4000\<close>: that peer, another peer, and that peer when no protocol is bound.
\<close>

theorem listening_iter_accept_witness:
  "accepted (listening_iter (arriving server3 5 (Some len_proto)
              [AConn ''10.0.0.2:80'' ''10.0.0.66:4000'' []]) 5) 5 =
     Some (Continue, [10, 11, 12], [], []) \<and>
   accepted (listening_iter (arriving server3 5 (Some len_proto)
              [AConn ''10.0.0.2:80'' ''10.0.0.1:5000'' []]) 5) 5 =
     Some (Continue, [10, 11, 12, 13],
           [\<lparr>EventType = EventNewConnection, Conn = Some 13, Data = Nil\<rparr>],
           [TRead 13, TWrite 13]) \<and>
   accepted (listening_iter (arriving server3 5 None
              [AConn ''10.0.0.2:80'' ''10.0.0.66:4000'' []]) 5) 5 =
     Some (Continue, [10, 11, 12, 13],
           [\<lparr>EventType = EventNewConnection, Conn = Some 13, Data = Nil\<rparr>],
           [TRead 13, TWrite 13])"
proof -
  let ?ls = "\<lambda>p a. (ex_listener \<lparr>s_arr = 2, s_len = 3, s_cap = 4\<rparr>)
                \<lparr>l_proto := p, l_listen := \<lparr>ls_closed = False, ls_pending = [a]\<rparr>\<rparr>"
  let ?bad = "AConn ''10.0.0.2:80'' ''10.0.0.66:4000'' []"
  let ?good = "AConn ''10.0.0.2:80'' ''10.0.0.1:5000'' []"
  let ?lsk = "\<lparr>ls_closed = False, ls_pending = []\<rparr>"
  have l1: "listeners (arriving server3 5 (Some len_proto) [?bad]) 5 = Some (?ls (Some len_proto) ?bad)"
    by (simp add: arriving_def ex_defs)
  have a1: "sock_accept (l_listen (?ls (Some len_proto) ?bad)) =
              Some (Inr (ex_sock, ''10.0.0.2:80'', ''10.0.0.66:4000''), ?lsk)"
    by (simp add: sock_accept_def ex_defs)
  have l2: "listeners (arriving server3 5 (Some len_proto) [?good]) 5 = Some (?ls (Some len_proto) ?good)"
    by (simp add: arriving_def ex_defs)
  have a2: "sock_accept (l_listen (?ls (Some len_proto) ?good)) =
              Some (Inr (ex_sock, ''10.0.0.2:80'', ''10.0.0.1:5000''), ?lsk)"
    by (simp add: sock_accept_def ex_defs)
  have l3: "listeners (arriving server3 5 None [?bad]) 5 = Some (?ls None ?bad)"
    by (simp add: arriving_def ex_defs)
  have a3: "sock_accept (l_listen (?ls None ?bad)) =
              Some (Inr (ex_sock, ''10.0.0.2:80'', ''10.0.0.66:4000''), ?lsk)"
    by (simp add: sock_accept_def ex_defs)
  have "accepted (listening_iter (arriving server3 5 (Some len_proto) [?bad]) 5) 5 =
          Some (Continue, [10, 11, 12], [], [])"
    using listening_iter_accept [OF l1 a1]
    by (auto simp: accepted_def arriving_def elems_def ex_defs ex2_defs)
  moreover have "accepted (listening_iter (arriving server3 5 (Some len_proto) [?good]) 5) 5 =
     Some (Continue, [10, 11, 12, 13],
           [\<lparr>EventType = EventNewConnection, Conn = Some 13, Data = Nil\<rparr>],
           [TRead 13, TWrite 13])"
    using listening_iter_accept [OF l2 a2]
    by (auto simp: accepted_def arriving_def elems_def slice_ok_def can_send_def ex_defs ex2_defs)
  moreover have "accepted (listening_iter (arriving server3 5 None [?bad]) 5) 5 =
     Some (Continue, [10, 11, 12, 13],
           [\<lparr>EventType = EventNewConnection, Conn = Some 13, Data = Nil\<rparr>],
           [TRead 13, TWrite 13])"
    using listening_iter_accept [OF l3 a3]
    by (auto simp: accepted_def arriving_def elems_def slice_ok_def can_send_def ex_defs ex2_defs)
  ultimately show ?thesis by blast
qed

subsection \<open>C10: unframed mode reads one byte at a time\<close>

text \<open>
  C10: when no protocol is bound, or \<open>HeadLen()\<close> is 0, every event that a run of the
  read task adds to the queue and that has kind \<open>EventNewConnectionData\<close> carries a byte
  slice of length 1. And whatever the socket has ready, a byte \<open>b\<close> followed by any
  bytes \<open>bs\<close>, an iteration takes the one byte \<open>b\<close>, queues it as the event's data,
  and leaves \<open>bs\<close> on the socket for the iterations to come.
\<close>

theorem handleRead_unframed_one_byte:
  assumes cn: "conns w c = Some cn" and h: "headlen_of cn = 0"
  shows "(\<exists>new. queued (world_of (handleRead w c)) = queued w @ new \<and> list_all one_byte new) \<and>
         (\<not> sk_closed (c_conn cn) \<and> sk_incoming (c_conn cn) = RData (b # bs) # rest \<and>
          can_send (events (net w)) \<longrightarrow>
            read_iter w c =
              Done Continue
                (w\<lparr>conns := (conns w)(c \<mapsto>
                      cn\<lparr>c_conn := (c_conn cn)\<lparr>sk_incoming :=
                                    (if bs = [] then rest else RData bs # rest)\<rparr>,
                         c_upTime := now w\<rparr>),
                   net := (net w)\<lparr>events := (events (net w))\<lparr>ch_buf :=
                      ch_buf (events (net w)) @
                        [\<lparr>EventType = EventNewConnectionData, Conn = Some c,
                          Data = Bytes [b]\<rparr>]\<rparr>\<rparr>\<rparr>))"
  using handleRead_unframed_queue [OF cn h] read_iter_unframed_data [OF cn h]
  by blast

text \<open>Three bytes that arrive together come out as three events.\<close>

theorem handleRead_unframed_one_byte_witness:
  "map Data (queued (world_of (handleRead (feed server3 11 [RData [1, 2, 3]]) 11))) =
     [Bytes [1], Bytes [2], Bytes [3]] \<and>
   list_all one_byte (queued (world_of (handleRead (feed server3 11 [RData [1, 2, 3]]) 11))) \<and>
   after_iter (read_iter (feed server3 11 [RData [1, 2, 3]]) 11) 11 =
     Some (Continue, Some StatusConnected, Some False, Some False, [10, 11, 12],
           [\<lparr>EventType = EventNewConnectionData, Conn = Some 11, Data = Bytes [1]\<rparr>])"
proof -
  let ?w = "feed server3 11 [RData [1, 2, 3]]"
  let ?cn = "(ex_conn (Some 5) 3)\<lparr>c_conn := ex_sock\<lparr>sk_incoming := [RData [1, 2, 3]]\<rparr>\<rparr>"
  have c: "conns ?w 11 = Some ?cn"
    by (simp add: ex_defs)
  have h: "headlen_of ?cn = 0"
    by (simp add: headlen_of_def ex_defs)
  have q: "queued ?w = []"
    by (simp add: queued_def ex_defs)
  note t = handleRead_unframed_one_byte [OF c h, where b = 1 and bs = "[2, 3]" and rest = "[]"]
  from t q have l: "list_all one_byte (queued (world_of (handleRead ?w 11)))"
    by auto
  from t have "read_iter ?w 11 =
      Done Continue
        (?w\<lparr>conns := (conns ?w)(11 \<mapsto>
              ?cn\<lparr>c_conn := (c_conn ?cn)\<lparr>sk_incoming := [RData [2, 3]]\<rparr>, c_upTime := now ?w\<rparr>),
           net := (net ?w)\<lparr>events := (events (net ?w))\<lparr>ch_buf :=
              ch_buf (events (net ?w)) @
                [\<lparr>EventType = EventNewConnectionData, Conn = Some 11, Data = Bytes [1]\<rparr>]\<rparr>\<rparr>\<rparr>)"
    by (simp add: can_send_def ex_defs)
  then have i: "after_iter (read_iter ?w 11) 11 =
     Some (Continue, Some StatusConnected, Some False, Some False, [10, 11, 12],
           [\<lparr>EventType = EventNewConnectionData, Conn = Some 11, Data = Bytes [1]\<rparr>])"
    by (simp add: after_iter_def registry_def elems_def ex_defs)
  have "map Data (queued (world_of (handleRead ?w 11))) = [Bytes [1], Bytes [2], Bytes [3]]"
    by (simp add: handleRead.simps read_iter_def conn_read_def touch_def queued_def run_defs ex_defs)
  with l i show ?thesis by blast
qed

end
